theory Spec2Isabelle
  imports Main "HOL-Library.Multiset"
begin

section \<open>Strings and Python built-ins used by the program\<close>

text \<open>
  Python strings are modelled as \<open>string\<close>, one \<open>char\<close> per code point; the model
  therefore covers code points below 256. In that range the regular expression class
  \<open>\d\<close> is exactly the ten ASCII digits.
\<close>

datatype error =
    IndexError           \<comment> \<open>\<open>match.group(1)\<close> on a pattern without group 1; \<open>xs[-1]\<close> on an empty list\<close>
  | TypeError            \<comment> \<open>\<open>int(None)\<close>: group 1 exists but took no part in the match\<close>
  | InvalidLiteral string  \<comment> \<open>\<open>ValueError\<close> of \<open>int(s)\<close>\<close>
  | OrderCountMismatch   \<comment> \<open>\<open>ValueError\<close> raised by \<open>get_sorted_pdfs_by_order\<close>\<close>
  | AppendFailure string \<comment> \<open>the PDF library cannot read the file at this path\<close>
  | AttributeError       \<comment> \<open>\<open>.numPages\<close> on an object that has no such attribute\<close>
  | OSError string       \<comment> \<open>\<open>open(output_file, 'wb')\<close> cannot open this path\<close>

definition startswith :: "string \<Rightarrow> string \<Rightarrow> bool" where
  "startswith s p = (take (length p) s = p)"

definition endswith :: "string \<Rightarrow> string \<Rightarrow> bool" where
  "endswith s p = (length p \<le> length s \<and> drop (length s - length p) s = p)"

definition is_digit :: "char \<Rightarrow> bool" where
  "is_digit c = (c \<in> set ''0123456789'')"

definition digit_val :: "char \<Rightarrow> nat" where
  "digit_val c = of_char c - 48"

text \<open>
  \<open>int(s)\<close> for a string, base 10: leading white space, an optional sign, decimal
  digits with single underscores between digits, trailing white space. The white space
  of \<open>int\<close> is tab, newline, vertical tab, form feed, carriage return, space, and
  the code points 0x85 and 0xA0. The digit-count limit of recent interpreters
  (4300 digits by default) is not modelled.
\<close>

definition int_space :: "char \<Rightarrow> bool" where
  "int_space c = (c \<in> {CHR 0x09, CHR 0x0A, CHR 0x0B, CHR 0x0C, CHR 0x0D, CHR 0x20, CHR 0x85, CHR 0xA0})"

fun int_body :: "bool \<Rightarrow> nat \<Rightarrow> string \<Rightarrow> nat option" where
  "int_body prev acc [] = (if prev then Some acc else None)"
| "int_body prev acc (c # cs) =
     (if is_digit c then int_body True (10 * acc + digit_val c) cs
      else if c = CHR ''_'' \<and> prev then int_body False acc cs
      else None)"

definition py_int :: "string \<Rightarrow> error + int" where
  "py_int s =
     (let t = dropWhile int_space s;
          (sign, u) = (case t of
                         [] \<Rightarrow> (1, t)
                       | c # r \<Rightarrow> if c = CHR ''-'' then (- 1, r)
                                  else if c = CHR ''+'' then (1, r) else (1, t));
          v = rev (dropWhile int_space (rev u))
      in case int_body False 0 v of
           None \<Rightarrow> Inl (InvalidLiteral s)
         | Some n \<Rightarrow> Inr (sign * int n))"

section \<open>Regular expressions\<close>

text \<open>
  \<open>re.search\<close> belongs to the standard library. The pattern is taken in parsed form,
  for a fragment of the pattern language: literals, \<open>.\<close>, \<open>\d\<close>, character sets,
  concatenation, alternation, the greedy quantifiers \<open>*\<close>, \<open>+\<close>, \<open>?\<close> and capturing
  groups. Groups are numbered from 1 in the order of their opening parentheses.
\<close>

datatype regex =
    Eps
  | Chr char
  | Dot
  | Digit
  | Oneof "char list"
  | Noneof "char list"
  | Seq regex regex
  | Alt regex regex
  | Star regex
  | Plus regex
  | Opt regex
  | Group regex

fun ngroups :: "regex \<Rightarrow> nat" where
  "ngroups (Seq r1 r2) = ngroups r1 + ngroups r2"
| "ngroups (Alt r1 r2) = ngroups r1 + ngroups r2"
| "ngroups (Star r) = ngroups r"
| "ngroups (Plus r) = ngroups r"
| "ngroups (Opt r) = ngroups r"
| "ngroups (Group r) = Suc (ngroups r)"
| "ngroups _ = 0"

type_synonym caps = "nat \<rightharpoonup> string"

definition one_char :: "(char \<Rightarrow> bool) \<Rightarrow> string \<times> caps \<Rightarrow> (string \<times> caps) list" where
  "one_char P st = (case fst st of [] \<Rightarrow> [] | x # xs \<Rightarrow> if P x then [(xs, snd st)] else [])"

text \<open>
  The backtracking matcher: \<open>ms r k (s, c)\<close> lists, in the order the engine tries them,
  the ways \<open>r\<close> matches a prefix of \<open>s\<close>, each as the remaining input and the captures;
  \<open>k\<close> is the number of the first group of \<open>r\<close>. A repetition whose body matched without
  consuming input is not entered again, and that iteration's captures are kept.
\<close>

fun ms :: "regex \<Rightarrow> nat \<Rightarrow> string \<times> caps \<Rightarrow> (string \<times> caps) list" where
  "ms Eps k st = [st]"
| "ms (Chr a) k st = one_char (\<lambda>x. x = a) st"
| "ms Dot k st = one_char (\<lambda>x. x \<noteq> CHR 0x0A) st"
| "ms Digit k st = one_char is_digit st"
| "ms (Oneof cs) k st = one_char (\<lambda>x. x \<in> set cs) st"
| "ms (Noneof cs) k st = one_char (\<lambda>x. x \<notin> set cs) st"
| "ms (Seq r1 r2) k st = concat (map (ms r2 (k + ngroups r1)) (ms r1 k st))"
| "ms (Alt r1 r2) k st = ms r1 k st @ ms r2 (k + ngroups r1) st"
| "ms (Star r) k st =
     concat (map (\<lambda>st'. if length (fst st') < length (fst st) then ms (Star r) k st' else [st'])
                 (ms r k st)) @ [st]"
| "ms (Plus r) k st =
     concat (map (\<lambda>st'. if length (fst st') < length (fst st) then ms (Plus r) k st' @ [st']
                         else [st'])
                 (ms r k st))"
| "ms (Opt r) k st = ms r k st @ [st]"
| "ms (Group r) k st =
     map (\<lambda>st'. (fst st', (snd st')(k \<mapsto> take (length (fst st) - length (fst st')) (fst st))))
         (ms r (Suc k) st)"

record re_match =
  m_start :: nat
  m_text :: string
  m_groups :: caps
  m_ngroups :: nat

text \<open>\<open>pattern.match\<close> at position \<open>i\<close>, where \<open>s\<close> is the input from there on.\<close>

definition match_at :: "regex \<Rightarrow> nat \<Rightarrow> string \<Rightarrow> re_match option" where
  "match_at r i s =
     (case ms r 1 (s, Map.empty) of
        [] \<Rightarrow> None
      | st' # _ \<Rightarrow> Some \<lparr>m_start = i, m_text = take (length s - length (fst st')) s,
                         m_groups = snd st', m_ngroups = ngroups r\<rparr>)"

text \<open>\<open>re.search\<close>: the first match at the leftmost position that has one.\<close>

fun search_from :: "regex \<Rightarrow> nat \<Rightarrow> string \<Rightarrow> re_match option" where
  "search_from r i [] = match_at r i []"
| "search_from r i (x # t) =
     (case match_at r i (x # t) of
        Some m \<Rightarrow> Some m
      | None \<Rightarrow> search_from r (Suc i) t)"

definition re_search :: "regex \<Rightarrow> string \<Rightarrow> re_match option" where
  "re_search r s = search_from r 0 s"

text \<open>\<open>match.group(n)\<close> for \<open>n > 0\<close>: \<open>None\<close> for a group that took no part.\<close>

definition group :: "re_match \<Rightarrow> nat \<Rightarrow> error + string option" where
  "group m n = (if n > m_ngroups m then Inl IndexError else Inr (m_groups m n))"

text \<open>The default of \<open>--index_pattern\<close>, \<open>(\d+)\<close>.\<close>

definition default_pattern :: regex where
  "default_pattern = Group (Plus Digit)"

section \<open>Index extraction\<close>

definition extract_index_from_filename :: "string \<Rightarrow> string \<Rightarrow> regex \<Rightarrow> error + int option" where
  "extract_index_from_filename filename prefix index_pattern =
     (let clean_name = (if startswith filename prefix then drop (length prefix) filename
                        else filename)
      in case re_search index_pattern clean_name of
           None \<Rightarrow> Inr None
         | Some m \<Rightarrow>
             (case group m 1 of
                Inl e \<Rightarrow> Inl e
              | Inr None \<Rightarrow> Inl TypeError
              | Inr (Some g) \<Rightarrow> (case py_int g of Inl e \<Rightarrow> Inl e | Inr n \<Rightarrow> Inr (Some n))))"

section \<open>Dictionaries and sorting\<close>

text \<open>
  A Python \<open>dict\<close> keeps its keys in insertion order; assigning to a key that is
  already present replaces the value and leaves the key where it is. \<open>d.items()\<close>
  is the association list itself.
\<close>

fun dict_set :: "('k \<times> 'v) list \<Rightarrow> 'k \<Rightarrow> 'v \<Rightarrow> ('k \<times> 'v) list" where
  "dict_set [] k v = [(k, v)]"
| "dict_set ((k', v') # d) k v = (if k' = k then (k', v) # d else (k', v') # dict_set d k v)"

text \<open>
  \<open>sorted(d.items(), key=lambda x: x[1])\<close>: Python's sort is stable, and a stable
  sort has one result, the one of the library's insertion sort \<open>sort_key\<close>.
\<close>

definition sorted_by_value :: "(string \<times> int) list \<Rightarrow> (string \<times> int) list" where
  "sorted_by_value items = sort_key snd items"

section \<open>Planning\<close>

text \<open>\<open>listdir\<close> stands for \<open>os.listdir\<close>: the names in a folder, in the order it yields them.\<close>

definition list_pdf_files :: "(string \<Rightarrow> string list) \<Rightarrow> string \<Rightarrow> string list" where
  "list_pdf_files listdir input_folder = filter (\<lambda>f. endswith f ''.pdf'') (listdir input_folder)"

definition no_index_warning :: "string \<Rightarrow> string" where
  "no_index_warning pdf_file = ''Warning: No index found for file '' @ pdf_file @ ''. Skipping.''"

text \<open>
  The loop of \<open>get_sorted_pdfs_by_index\<close>, on the dictionary and the lines printed so
  far. An exception of the extraction leaves the loop.
\<close>

fun index_loop :: "string list \<Rightarrow> string \<Rightarrow> regex \<Rightarrow> (string \<times> int) list \<Rightarrow> string list
    \<Rightarrow> (error + (string \<times> int) list) \<times> string list" where
  "index_loop [] prefix index_pattern pdf_with_indices out = (Inr pdf_with_indices, out)"
| "index_loop (pdf_file # rest) prefix index_pattern pdf_with_indices out =
     (case extract_index_from_filename pdf_file prefix index_pattern of
        Inl e \<Rightarrow> (Inl e, out)
      | Inr (Some index) \<Rightarrow>
          index_loop rest prefix index_pattern (dict_set pdf_with_indices pdf_file index) out
      | Inr None \<Rightarrow>
          index_loop rest prefix index_pattern pdf_with_indices (out @ [no_index_warning pdf_file]))"

definition get_sorted_pdfs_by_index :: "string list \<Rightarrow> string \<Rightarrow> regex
    \<Rightarrow> (error + (string \<times> int) list) \<times> string list" where
  "get_sorted_pdfs_by_index pdf_files prefix index_pattern =
     (case index_loop pdf_files prefix index_pattern [] [] of
        (Inl e, out) \<Rightarrow> (Inl e, out)
      | (Inr pdf_with_indices, out) \<Rightarrow> (Inr (sorted_by_value pdf_with_indices), out))"

definition get_sorted_pdfs_by_order :: "string list \<Rightarrow> int list \<Rightarrow> error + (string \<times> int) list" where
  "get_sorted_pdfs_by_order pdf_files custom_order =
     (if length pdf_files \<noteq> length custom_order then Inl OrderCountMismatch
      else let pdf_with_order = foldl (\<lambda>d (pdf_file, order). dict_set d pdf_file order) []
                                      (zip pdf_files custom_order)
           in Inr (sorted_by_value pdf_with_order))"

text \<open>\<open>s.split(c)\<close> for a separator of one character.\<close>

fun split_on :: "char \<Rightarrow> string \<Rightarrow> string list" where
  "split_on c [] = [[]]"
| "split_on c (x # xs) =
     (if x = c then [] # split_on c xs
      else (case split_on c xs of [] \<Rightarrow> [[x]] | w # ws \<Rightarrow> (x # w) # ws))"

fun parse_all :: "string list \<Rightarrow> error + int list" where
  "parse_all [] = Inr []"
| "parse_all (order # rest) =
     (case py_int order of
        Inl e \<Rightarrow> Inl e
      | Inr n \<Rightarrow> (case parse_all rest of Inl e \<Rightarrow> Inl e | Inr ns \<Rightarrow> Inr (n # ns)))"

definition parse_custom_order :: "string \<Rightarrow> error + int list" where
  "parse_custom_order order_str = parse_all (split_on CHR '','' order_str)"

section \<open>Paths\<close>

text \<open>
  \<open>pathlib\<close> belongs to the standard library; its POSIX flavour is modelled. A path is
  a root (\<open>/\<close>, \<open>//\<close> or none) and its components; empty components and \<open>.\<close> are
  dropped when a string is parsed.
\<close>

record path =
  p_root :: string
  p_parts :: "string list"

definition path_root :: "string \<Rightarrow> string" where
  "path_root s =
     (if startswith s ''///'' then ''/''
      else if startswith s ''//'' then ''//''
      else if startswith s ''/'' then ''/''
      else [])"

definition Path :: "string \<Rightarrow> path" where
  "Path s = \<lparr>p_root = path_root s,
            p_parts = filter (\<lambda>c. c \<noteq> [] \<and> c \<noteq> ''.'') (split_on CHR ''/'' s)\<rparr>"

text \<open>\<open>Path(a) / b\<close>: an absolute \<open>b\<close> replaces \<open>a\<close>.\<close>

definition path_join :: "path \<Rightarrow> string \<Rightarrow> path" where
  "path_join a b =
     (if startswith b ''/'' then Path b
      else \<lparr>p_root = p_root a, p_parts = p_parts a @ p_parts (Path b)\<rparr>)"

fun intercalate :: "string \<Rightarrow> string list \<Rightarrow> string" where
  "intercalate sep [] = []"
| "intercalate sep [x] = x"
| "intercalate sep (x # y # ys) = x @ sep @ intercalate sep (y # ys)"

definition path_str :: "path \<Rightarrow> string" where
  "path_str p =
     (if p_root p = [] \<and> p_parts p = [] then ''.''
      else p_root p @ intercalate ''/'' (p_parts p))"

definition path_name :: "path \<Rightarrow> string" where
  "path_name p = (case p_parts p of [] \<Rightarrow> [] | _ \<Rightarrow> last (p_parts p))"

definition rfind :: "char \<Rightarrow> string \<Rightarrow> nat option" where
  "rfind c s =
     (if c \<in> set s then Some (length s - 1 - length (takeWhile (\<lambda>x. x \<noteq> c) (rev s)))
      else None)"

text \<open>
  \<open>path.stem\<close>: the final component without its suffix. The suffix starts at the last
  dot, unless that dot is the first or the last character of the name.
\<close>

definition path_stem :: "path \<Rightarrow> string" where
  "path_stem p =
     (let name = path_name p
      in case rfind CHR ''.'' name of
           None \<Rightarrow> name
         | Some i \<Rightarrow> if 0 < i \<and> i < length name - 1 then take i name else name)"

section \<open>The PDF library\<close>

text \<open>
  The PDF library is PyPDF2, an external package; \<open>setup.py\<close> requires version 3.0.0 or
  later. Its \<open>PdfMerger\<close> keeps in \<open>pages\<close> one object for every page merged so far,
  in order (the object records the source document and the page; it has no attribute
  \<open>numPages\<close>), and separately the outline entries added. \<open>append\<close> reads the whole
  document at a path and adds one page object per page; which files can be read, and how
  many pages each has, is a parameter \<open>pdf_pages\<close> (\<open>None\<close>: the library raises on
  that path).
\<close>

datatype merged_page = MergedPage string nat  \<comment> \<open>the source path and the page's number in it\<close>

record merger =
  mg_pages :: "merged_page list"
  mg_outline :: "(string \<times> nat) list"

record document =
  doc_pages :: nat
  doc_outline :: "(string \<times> nat) list"

definition PdfMerger :: merger where
  "PdfMerger = \<lparr>mg_pages = [], mg_outline = []\<rparr>"

definition merger_append :: "(string \<Rightarrow> nat option) \<Rightarrow> merger \<Rightarrow> string \<Rightarrow> error + merger" where
  "merger_append pdf_pages mg p =
     (case pdf_pages p of
        None \<Rightarrow> Inl (AppendFailure p)
      | Some n \<Rightarrow> Inr (mg\<lparr>mg_pages := mg_pages mg @ map (MergedPage p) [0..<n]\<rparr>))"

definition add_outline_item :: "merger \<Rightarrow> string \<Rightarrow> nat \<Rightarrow> merger" where
  "add_outline_item mg title page = mg\<lparr>mg_outline := mg_outline mg @ [(title, page)]\<rparr>"

text \<open>\<open>merger.pages[-1]\<close>: indexing an empty list raises.\<close>

definition pages_last :: "merger \<Rightarrow> error + merged_page" where
  "pages_last mg = (case mg_pages mg of [] \<Rightarrow> Inl IndexError | _ \<Rightarrow> Inr (last (mg_pages mg)))"

text \<open>\<open>.numPages\<close> of a page object of the merger: there is no such attribute.\<close>

definition numPages :: "merged_page \<Rightarrow> error + nat" where
  "numPages pg = Inl AttributeError"

text \<open>\<open>merger.pages[-1].numPages\<close>, line 69.\<close>

definition last_num_pages :: "merger \<Rightarrow> error + nat" where
  "last_num_pages mg = (case pages_last mg of Inl e \<Rightarrow> Inl e | Inr pg \<Rightarrow> numPages pg)"

definition merger_write :: "merger \<Rightarrow> document" where
  "merger_write mg = \<lparr>doc_pages = length (mg_pages mg), doc_outline = mg_outline mg\<rparr>"

section \<open>Assembly\<close>

type_synonym fs = "string \<rightharpoonup> document"

definition quote :: string where
  "quote = [CHR 0x27]"

definition adding_message :: "string \<Rightarrow> string \<Rightarrow> string" where
  "adding_message pdf_file bookmark_title =
     ''Adding '' @ pdf_file @ '' to the merged PDF with bookmark title: '' @ quote
       @ bookmark_title @ quote @ ''.''"

definition saved_message :: "string \<Rightarrow> string" where
  "saved_message output_file =
     ''Merged PDF saved as '' @ output_file @ '' with Table of Contents (Bookmarks).''"

text \<open>
  \<open>custom_titles[idx] if custom_titles and idx < len(custom_titles) else pdf_path.stem\<close>:
  \<open>None\<close> and the empty list are both false.
\<close>

definition bookmark_title_of :: "string list option \<Rightarrow> nat \<Rightarrow> path \<Rightarrow> string" where
  "bookmark_title_of custom_titles idx pdf_path =
     (case custom_titles of
        None \<Rightarrow> path_stem pdf_path
      | Some ts \<Rightarrow> if ts \<noteq> [] \<and> idx < length ts then ts ! idx else path_stem pdf_path)"

text \<open>
  The loop of \<open>merge_pdfs\<close>, on the merger, the running page counter and the lines
  printed so far; \<open>idx\<close> is the position of the first remaining entry. An exception of
  the library or of line 69 ends the loop and leaves \<open>merge_pdfs\<close>.
\<close>

fun merge_loop :: "(string \<Rightarrow> nat option) \<Rightarrow> string \<Rightarrow> string list option \<Rightarrow> nat
    \<Rightarrow> (string \<times> int) list \<Rightarrow> merger \<Rightarrow> nat \<Rightarrow> string list
    \<Rightarrow> (error + merger) \<times> string list" where
  "merge_loop pdf_pages input_folder custom_titles idx [] mg current_page out = (Inr mg, out)"
| "merge_loop pdf_pages input_folder custom_titles idx ((pdf_file, _) # rest) mg current_page out =
     (let pdf_path = path_join (Path input_folder) pdf_file
      in case merger_append pdf_pages mg (path_str pdf_path) of
           Inl e \<Rightarrow> (Inl e, out)
         | Inr mg1 \<Rightarrow>
             (let bookmark_title = bookmark_title_of custom_titles idx pdf_path;
                  mg2 = add_outline_item mg1 bookmark_title current_page;
                  out2 = out @ [adding_message pdf_file bookmark_title]
              in case last_num_pages mg2 of
                   Inl e \<Rightarrow> (Inl e, out2)
                 | Inr n \<Rightarrow> merge_loop pdf_pages input_folder custom_titles (Suc idx) rest mg2
                              (current_page + n) out2))"

text \<open>
  \<open>merge_pdfs\<close>: the exception that leaves it (or a normal return), the lines printed,
  and the file system afterwards. The output is opened only after the loop has ended
  normally; \<open>writable\<close> says which paths \<open>open(output_file, 'wb')\<close> can open.
\<close>

definition merge_pdfs :: "(string \<Rightarrow> nat option) \<Rightarrow> (string \<Rightarrow> bool) \<Rightarrow> fs \<Rightarrow> string \<Rightarrow> string
    \<Rightarrow> (string \<times> int) list \<Rightarrow> string list option \<Rightarrow> (error + unit) \<times> string list \<times> fs" where
  "merge_pdfs pdf_pages writable files input_folder output_file sorted_pdfs custom_titles =
     (case merge_loop pdf_pages input_folder custom_titles 0 sorted_pdfs PdfMerger 0 [] of
        (Inl e, out) \<Rightarrow> (Inl e, out, files)
      | (Inr mg, out) \<Rightarrow>
          if \<not> writable output_file then (Inl (OSError output_file), out, files)
          else (Inr (), out @ [saved_message output_file], files(output_file \<mapsto> merger_write mg)))"

section \<open>Confirmation and the main workflow\<close>

text \<open>\<open>str(n)\<close> for an integer.\<close>

fun str_nat :: "nat \<Rightarrow> string" where
  "str_nat n = (if n < 10 then [char_of (48 + n)] else str_nat (n div 10) @ [char_of (48 + n mod 10)])"

definition str_int :: "int \<Rightarrow> string" where
  "str_int i = (if i < 0 then CHR ''-'' # str_nat (nat (- i)) else str_nat (nat i))"

text \<open>\<open>s.strip()\<close> and \<open>s.lower()\<close> on code points below 256.\<close>

definition strip_space :: "char \<Rightarrow> bool" where
  "strip_space c = (int_space c \<or> c \<in> {CHR 0x1C, CHR 0x1D, CHR 0x1E, CHR 0x1F})"

definition py_strip :: "string \<Rightarrow> string" where
  "py_strip s = rev (dropWhile strip_space (rev (dropWhile strip_space s)))"

definition lower_char :: "char \<Rightarrow> char" where
  "lower_char c =
     (let n = (of_char c :: nat)
      in if (65 \<le> n \<and> n \<le> 90) \<or> (192 \<le> n \<and> n \<le> 222 \<and> n \<noteq> 215) then char_of (n + 32) else c)"

definition py_lower :: "string \<Rightarrow> string" where
  "py_lower s = map lower_char s"

definition plan_line :: "string \<times> int \<Rightarrow> string" where
  "plan_line e = fst e @ '' (Order/Index: '' @ str_int (snd e) @ '')''"

text \<open>
  \<open>confirm_merge\<close>: what it prints (the prompt of \<open>input\<close> included) and its answer;
  \<open>reply\<close> is the line the user types.
\<close>

definition confirm_merge :: "string \<Rightarrow> (string \<times> int) list \<Rightarrow> bool \<times> string list" where
  "confirm_merge reply sorted_pdfs =
     (py_lower (py_strip reply) = ''yes'',
      [CHR 0x0A # ''The following PDFs will be merged in this order:'']
        @ map plan_line sorted_pdfs
        @ [CHR 0x0A # ''Do you want to proceed with merging these files? (yes/no): ''])"

record args =
  arg_input_folder :: string
  arg_output_file :: string
  arg_prefix :: string
  arg_index_pattern :: regex
  arg_custom_titles :: "string option"
  arg_custom_order :: "string option"
  arg_force_merge :: bool

text \<open>
  What \<open>main\<close> reads from outside: the names \<open>os.listdir\<close> returns for a folder,
  the readable PDF files with their page counts, the paths that can be opened for
  writing, and the user's reply to the prompt.
\<close>

record env =
  env_listdir :: "string \<Rightarrow> string list"
  env_pdf_pages :: "string \<Rightarrow> nat option"
  env_writable :: "string \<Rightarrow> bool"
  env_reply :: string

text \<open>An optional string argument is true when it is given and not empty.\<close>

definition given :: "string option \<Rightarrow> bool" where
  "given a = (case a of None \<Rightarrow> False | Some s \<Rightarrow> s \<noteq> [])"

definition no_pdfs_message :: "string \<Rightarrow> string" where
  "no_pdfs_message folder = ''No PDF files found in the directory: '' @ folder"

definition no_valid_message :: string where
  "no_valid_message = ''No valid PDFs with index found. Exiting.''"

definition aborted_message :: string where
  "aborted_message = ''Merge operation aborted by the user.''"

text \<open>Step 2 of \<open>main\<close>: the plan, by the explicit order when one is given.\<close>

definition plan_step :: "args \<Rightarrow> string list \<Rightarrow> (error + (string \<times> int) list) \<times> string list" where
  "plan_step a pdf_files =
     (if given (arg_custom_order a) then
        (case parse_custom_order (the (arg_custom_order a)) of
           Inl e \<Rightarrow> (Inl e, [])
         | Inr order \<Rightarrow> (get_sorted_pdfs_by_order pdf_files order, []))
      else get_sorted_pdfs_by_index pdf_files (arg_prefix a) (arg_index_pattern a))"

text \<open>
  \<open>main\<close>: the exception that leaves it (or a normal return), the lines printed, and
  the file system afterwards.
\<close>

definition main :: "args \<Rightarrow> env \<Rightarrow> fs \<Rightarrow> (error + unit) \<times> string list \<times> fs" where
  "main a e files =
     (let pdf_files = list_pdf_files (env_listdir e) (arg_input_folder a)
      in if pdf_files = [] then (Inr (), [no_pdfs_message (arg_input_folder a)], files)
         else case plan_step a pdf_files of
                (Inl err, out) \<Rightarrow> (Inl err, out, files)
              | (Inr sorted_pdfs, out) \<Rightarrow>
                  if sorted_pdfs = [] then (Inr (), out @ [no_valid_message], files)
                  else
                    let titles = (if given (arg_custom_titles a)
                                  then Some (split_on CHR '','' (the (arg_custom_titles a)))
                                  else None);
                        (go, out2) = (if arg_force_merge a then (True, out)
                                      else let (yes, asked) = confirm_merge (env_reply e) sorted_pdfs
                                           in (yes, out @ asked))
                    in if \<not> go then (Inr (), out2 @ [aborted_message], files)
                       else case merge_pdfs (env_pdf_pages e) (env_writable e) files (arg_input_folder a)
                                   (arg_output_file a) sorted_pdfs titles of
                              (r, out3, files') \<Rightarrow> (r, out2 @ out3, files'))"

section \<open>Positions in the listing\<close>

text \<open>
  The position of a file in the listing: the index of its first occurrence (the length of
  the listing for a name that does not occur). In a listing without duplicates it is the
  index of the file.
\<close>

definition index_of :: "'a \<Rightarrow> 'a list \<Rightarrow> nat" where
  "index_of x xs = length (takeWhile (\<lambda>y. y \<noteq> x) xs)"

section \<open>Example inputs\<close>

text \<open>A run of the program on a folder with three numbered PDF files and one other file.\<close>

definition ex_args :: args where
  "ex_args = \<lparr>arg_input_folder = ''in'', arg_output_file = ''out.pdf'', arg_prefix = ''doc_'',
     arg_index_pattern = default_pattern, arg_custom_titles = None,
     arg_custom_order = Some ''1,2'', arg_force_merge = True\<rparr>"

definition ex_env :: env where
  "ex_env = \<lparr>env_listdir = (\<lambda>_. [''doc_2.pdf'', ''notes.txt'', ''doc_10.pdf'', ''doc_1.pdf'']),
     env_pdf_pages = (\<lambda>p. if p = ''in/doc_1.pdf'' then Some 3
                           else if p = ''in/doc_2.pdf'' then Some 5
                           else if p = ''in/doc_10.pdf'' then Some 2 else None),
     env_writable = (\<lambda>_. True),
     env_reply = ''yes''\<rparr>"

text \<open>
  The same folder, with an explicit order for its three PDF files, and a user who
  declines at the prompt.
\<close>

definition ex_order_args :: args where
  "ex_order_args = ex_args\<lparr>arg_custom_order := Some ''1,2,3'', arg_force_merge := False\<rparr>"

definition ex_decline_env :: env where
  "ex_decline_env = ex_env\<lparr>env_reply := ''no''\<rparr>"

section \<open>Properties of index extraction\<close>

text \<open>The equations of the two repetitions are unfolded by hand.\<close>

declare ms.simps(9,10) [simp del]



lemma is_digit_not_space: "is_digit c \<Longrightarrow> \<not> int_space c \<and> c \<noteq> CHR ''-'' \<and> c \<noteq> CHR ''+'' \<and> c \<noteq> CHR ''_''"
  by (auto simp: is_digit_def int_space_def)

lemma int_body_digits:
  "\<forall>c\<in>set ds. is_digit c \<Longrightarrow>
   int_body p acc ds = (if ds = [] \<and> \<not> p then None else Some (foldl (\<lambda>a c. 10 * a + digit_val c) acc ds))"
  by (induction ds arbitrary: p acc) auto

lemma dropWhile_rev_last: "xs \<noteq> [] \<Longrightarrow> \<not> P (last xs) \<Longrightarrow> rev (dropWhile P (rev xs)) = xs"
  by (cases xs rule: rev_cases) auto

lemma py_int_digits:
  assumes "ds \<noteq> []" and "\<forall>c\<in>set ds. is_digit c"
  shows "py_int ds = Inr (int (foldl (\<lambda>a c. 10 * a + digit_val c) 0 ds))"
proof -
  obtain c r where ds: "ds = c # r" using assms(1) by (cases ds) auto
  have c: "is_digit c" using assms(2) ds by simp
  have l: "is_digit (last ds)" using assms by simp
  have t: "dropWhile int_space ds = ds" using c ds is_digit_not_space by simp
  have v: "rev (dropWhile int_space (rev ds)) = ds"
    using dropWhile_rev_last [OF assms(1)] l is_digit_not_space by blast
  show ?thesis
    unfolding py_int_def t
    using c is_digit_not_space [OF c] v int_body_digits [OF assms(2), of False 0] assms(1)
    by (simp add: ds Let_def)
qed

lemma ms_plus_digit_Nil: "ms (Plus Digit) k ([], c) = []"
  by (simp add: ms.simps(10) one_char_def)

lemma ms_plus_digit_Cons:
  "ms (Plus Digit) k (x # xs, c) =
     (if is_digit x then ms (Plus Digit) k (xs, c) @ [(xs, c)] else [])"
  by (subst ms.simps(10)) (simp add: one_char_def)

lemma ms_plus_digit_run:
  "st' \<in> set (ms (Plus Digit) k (s, c)) \<Longrightarrow>
   \<exists>ds. ds \<noteq> [] \<and> (\<forall>x\<in>set ds. is_digit x) \<and> s = ds @ fst st' \<and> snd st' = c"
proof (induction s)
  case Nil
  then show ?case by (simp only: ms_plus_digit_Nil) simp
next
  case (Cons x xs)
  from Cons.prems have d: "is_digit x"
    and m: "st' \<in> set (ms (Plus Digit) k (xs, c)) \<or> st' = (xs, c)"
    by (auto simp: ms_plus_digit_Cons split: if_splits)
  from m show ?case
  proof
    assume "st' \<in> set (ms (Plus Digit) k (xs, c))"
    from Cons.IH [OF this] obtain ds where
      "ds \<noteq> []" "\<forall>x\<in>set ds. is_digit x" "xs = ds @ fst st'" "snd st' = c" by blast
    then show ?thesis using d by (intro exI [of _ "x # ds"]) simp
  next
    assume "st' = (xs, c)"
    then show ?thesis using d by (intro exI [of _ "[x]"]) simp
  qed
qed

lemma ms_plus_digit_empty_iff:
  "(ms (Plus Digit) k (s, c) = []) = (case s of [] \<Rightarrow> True | x # _ \<Rightarrow> \<not> is_digit x)"
  by (cases s) (simp_all add: ms_plus_digit_Nil ms_plus_digit_Cons)

lemma ms_default_empty_iff:
  "(ms default_pattern k (s, c) = []) = (case s of [] \<Rightarrow> True | x # _ \<Rightarrow> \<not> is_digit x)"
  using ms_plus_digit_empty_iff [of "Suc k" s c] by (simp add: default_pattern_def)

lemma ms_default_group:
  assumes "ms default_pattern k (s, c) = st' # rest"
  shows "\<exists>ds. ds \<noteq> [] \<and> (\<forall>x\<in>set ds. is_digit x) \<and> s = ds @ fst st' \<and> snd st' k = Some ds"
proof -
  define inner where "inner = ms (Plus Digit) (Suc k) (s, c)"
  have "map (\<lambda>st1. (fst st1, (snd st1)(k \<mapsto> take (length s - length (fst st1)) s))) inner = st' # rest"
    using assms unfolding inner_def default_pattern_def by (simp)
  then obtain st1 r1 where i: "inner = st1 # r1"
    and st': "st' = (fst st1, (snd st1)(k \<mapsto> take (length s - length (fst st1)) s))"
    by (cases inner) auto
  have in1: "st1 \<in> set (ms (Plus Digit) (Suc k) (s, c))"
    using i unfolding inner_def by simp
  from ms_plus_digit_run [OF in1] obtain ds where
    ds: "ds \<noteq> []" "\<forall>x\<in>set ds. is_digit x" "s = ds @ fst st1" by blast
  then show ?thesis using st' by (intro exI [of _ ds]) simp
qed

lemma match_at_Some:
  "match_at r i s = Some m \<Longrightarrow>
   m_ngroups m = ngroups r \<and> m_start m = i \<and>
   (\<exists>st' rest. ms r 1 (s, Map.empty) = st' # rest \<and> m_groups m = snd st' \<and>
      m_text m = take (length s - length (fst st')) s)"
  by (auto simp: match_at_def split: list.splits)

lemma match_at_None: "(match_at r i s = None) = (ms r 1 (s, Map.empty) = [])"
  by (simp add: match_at_def split: list.splits)

lemma search_from_Some:
  "search_from r i s = Some m \<Longrightarrow>
   m_ngroups m = ngroups r \<and>
   (\<exists>j st' rest. j \<le> length s \<and> m_start m = i + j \<and>
      ms r 1 (drop j s, Map.empty) = st' # rest \<and> m_groups m = snd st' \<and>
      m_text m = take (length s - j - length (fst st')) (drop j s) \<and>
      (\<forall>j'<j. ms r 1 (drop j' s, Map.empty) = []))"
proof (induction s arbitrary: i)
  case Nil
  then have "match_at r i [] = Some m" by simp
  from match_at_Some [OF this] show ?case by auto
next
  case (Cons x xs)
  show ?case
  proof (cases "match_at r i (x # xs)")
    case None
    with Cons.prems have "search_from r (Suc i) xs = Some m" by simp
    from Cons.IH [OF this] obtain j st' rest where
      j: "j \<le> length xs" "m_start m = Suc i + j" "ms r 1 (drop j xs, Map.empty) = st' # rest"
         "m_groups m = snd st'" "m_text m = take (length xs - j - length (fst st')) (drop j xs)"
         "\<forall>j'<j. ms r 1 (drop j' xs, Map.empty) = []"
      and n: "m_ngroups m = ngroups r" by blast
    have e: "ms r 1 (x # xs, Map.empty) = []" using None by (simp add: match_at_None)
    have "\<forall>j'<Suc j. ms r 1 (drop j' (x # xs), Map.empty) = []"
    proof (intro allI impI)
      fix j' assume "j' < Suc j"
      then show "ms r 1 (drop j' (x # xs), Map.empty) = []"
        using j(6) e by (cases j') simp_all
    qed
    with j n show ?thesis
      by (intro conjI exI [of _ "Suc j"] exI [of _ st'] exI [of _ rest]) simp_all
  next
    case (Some m')
    with Cons.prems have "m' = m" by simp
    with Some have "match_at r i (x # xs) = Some m" by simp
    from match_at_Some [OF this] obtain st' rest where
      "m_ngroups m = ngroups r" "m_start m = i" "ms r 1 (x # xs, Map.empty) = st' # rest"
      "m_groups m = snd st'" "m_text m = take (length (x # xs) - length (fst st')) (x # xs)"
      by blast
    then show ?thesis
      by (intro conjI exI [of _ 0] exI [of _ st'] exI [of _ rest]) simp_all
  qed
qed

lemma search_default_None_iff:
  "(search_from default_pattern i s = None) = (\<forall>c\<in>set s. \<not> is_digit c)"
proof (induction s arbitrary: i)
  case Nil
  show ?case by (simp add: match_at_None ms_default_empty_iff)
next
  case (Cons x xs)
  show ?case
  proof (cases "is_digit x")
    case True
    then have "match_at default_pattern i (x # xs) \<noteq> None"
      by (simp add: match_at_None ms_default_empty_iff)
    then show ?thesis using True by auto
  next
    case False
    then have "match_at default_pattern i (x # xs) = None"
      by (simp add: match_at_None ms_default_empty_iff)
    then show ?thesis using False Cons.IH [of "Suc i"] by simp
  qed
qed

lemma search_default_group:
  assumes "re_search default_pattern s = Some m"
  shows "\<exists>ds. ds \<noteq> [] \<and> (\<forall>x\<in>set ds. is_digit x) \<and> group m 1 = Inr (Some ds)"
proof -
  from search_from_Some [OF assms [unfolded re_search_def]] obtain j st' rest where
    n: "m_ngroups m = ngroups default_pattern"
    and j: "ms default_pattern 1 (drop j s, Map.empty) = st' # rest" "m_groups m = snd st'"
    by blast
  from ms_default_group [OF j(1)] obtain ds where
    "ds \<noteq> []" "\<forall>x\<in>set ds. is_digit x" "snd st' 1 = Some ds" by blast
  then show ?thesis using n j(2) by (intro exI [of _ ds]) (simp add: group_def default_pattern_def)
qed

lemma extract_default_total:
  "\<exists>r. extract_index_from_filename filename pre default_pattern = Inr r"
proof -
  define clean where "clean = (if startswith filename pre then drop (length pre) filename else filename)"
  show ?thesis
  proof (cases "re_search default_pattern clean")
    case None
    then show ?thesis by (simp add: extract_index_from_filename_def clean_def)
  next
    case (Some m)
    from search_default_group [OF Some] obtain ds where
      ds: "ds \<noteq> []" "\<forall>x\<in>set ds. is_digit x" "group m 1 = Inr (Some ds)" by blast
    from py_int_digits [OF ds(1,2)] ds(3) Some show ?thesis
      by (simp add: extract_index_from_filename_def clean_def [symmetric])
  qed
qed

lemma extract_no_prefix:
  "extract_index_from_filename filename pre pat =
   extract_index_from_filename
     (if startswith filename pre then drop (length pre) filename else filename) [] pat"
  by (simp add: extract_index_from_filename_def startswith_def)

lemma ms_plus_digit_greedy:
  assumes "ds \<noteq> []" and "\<forall>x\<in>set ds. is_digit x"
    and "case b of [] \<Rightarrow> True | x # _ \<Rightarrow> \<not> is_digit x"
  shows "\<exists>alts. ms (Plus Digit) k (ds @ b, c) = (b, c) # alts"
  using assms(1,2)
proof (induction ds)
  case Nil
  then show ?case by simp
next
  case (Cons d ds)
  have e: "ms (Plus Digit) k ((d # ds) @ b, c) = ms (Plus Digit) k (ds @ b, c) @ [(ds @ b, c)]"
    using Cons.prems by (simp add: ms_plus_digit_Cons)
  show ?case
  proof (cases "ds = []")
    case True
    have "ms (Plus Digit) k (b, c) = []"
      using assms(3) by (simp add: ms_plus_digit_empty_iff)
    then show ?thesis using e True by simp
  next
    case False
    with Cons obtain alts where "ms (Plus Digit) k (ds @ b, c) = (b, c) # alts" by auto
    then show ?thesis using e by simp
  qed
qed

lemma ms_default_greedy:
  assumes "ds \<noteq> []" and "\<forall>x\<in>set ds. is_digit x"
    and "case b of [] \<Rightarrow> True | x # _ \<Rightarrow> \<not> is_digit x"
  shows "\<exists>alts. ms default_pattern k (ds @ b, c) = (b, c(k \<mapsto> ds)) # alts"
proof -
  from ms_plus_digit_greedy [OF assms, of "Suc k" c] obtain alts where
    "ms (Plus Digit) (Suc k) (ds @ b, c) = (b, c) # alts" by blast
  then show ?thesis by (simp add: default_pattern_def)
qed

lemma search_from_None:
  "\<forall>j\<le>length s. ms r 1 (drop j s, Map.empty) = [] \<Longrightarrow> search_from r i s = None"
proof (induction s arbitrary: i)
  case Nil
  then show ?case by (simp add: match_at_None)
next
  case (Cons x xs)
  from Cons.prems have "ms r 1 (drop 0 (x # xs), Map.empty) = []" by blast
  then have a: "match_at r i (x # xs) = None" by (simp add: match_at_None)
  have "\<forall>j\<le>length xs. ms r 1 (drop j xs, Map.empty) = []"
  proof (intro allI impI)
    fix j assume "j \<le> length xs"
    then have "Suc j \<le> length (x # xs)" by simp
    with Cons.prems have "ms r 1 (drop (Suc j) (x # xs), Map.empty) = []" by blast
    then show "ms r 1 (drop j xs, Map.empty) = []" by simp
  qed
  from Cons.IH [OF this] a show ?case by simp
qed

lemma search_from_first:
  assumes "j \<le> length s" and "ms r 1 (drop j s, Map.empty) = st' # alts"
    and "\<forall>i<j. ms r 1 (drop i s, Map.empty) = []"
  shows "search_from r i0 s =
    Some \<lparr>m_start = i0 + j, m_text = take (length s - j - length (fst st')) (drop j s),
          m_groups = snd st', m_ngroups = ngroups r\<rparr>"
  using assms
proof (induction s arbitrary: i0 j)
  case Nil
  then show ?case by (simp add: match_at_def)
next
  case (Cons x xs)
  show ?case
  proof (cases j)
    case 0
    with Cons.prems(2) show ?thesis by (simp add: match_at_def)
  next
    case (Suc j')
    with Cons.prems(3) have "ms r 1 (drop 0 (x # xs), Map.empty) = []" by blast
    then have a: "match_at r i0 (x # xs) = None" by (simp add: match_at_None)
    have l: "j' \<le> length xs" using Cons.prems(1) Suc by simp
    have m: "ms r 1 (drop j' xs, Map.empty) = st' # alts" using Cons.prems(2) Suc by simp
    have n: "\<forall>i<j'. ms r 1 (drop i xs, Map.empty) = []"
    proof (intro allI impI)
      fix i assume "i < j'"
      then have "Suc i < j" using Suc by simp
      with Cons.prems(3) have "ms r 1 (drop (Suc i) (x # xs), Map.empty) = []" by blast
      then show "ms r 1 (drop i xs, Map.empty) = []" by simp
    qed
    from Cons.IH [OF l m n, of "Suc i0"] a Suc show ?thesis by simp
  qed
qed

lemma extract_no_match:
  assumes "\<forall>j\<le>length name. ms pat 1 (drop j name, Map.empty) = []"
  shows "extract_index_from_filename name [] pat = Inr None"
  using search_from_None [OF assms, of 0]
  by (simp add: extract_index_from_filename_def startswith_def re_search_def)

lemma extract_first_match:
  assumes "j \<le> length name" and "ms pat 1 (drop j name, Map.empty) = st' # alts"
    and "\<forall>i<j. ms pat 1 (drop i name, Map.empty) = []"
  shows "extract_index_from_filename name [] pat =
    (if ngroups pat = 0 then Inl IndexError
     else case snd st' 1 of
            None \<Rightarrow> Inl TypeError
          | Some g \<Rightarrow> (case py_int g of Inl e \<Rightarrow> Inl e | Inr n \<Rightarrow> Inr (Some n)))"
  using search_from_first [OF assms, of 0]
  by (auto simp: extract_index_from_filename_def startswith_def re_search_def group_def
      split: option.splits sum.splits)

lemma extract_default_first_run:
  assumes "\<forall>c\<in>set a. \<not> is_digit c" and "ds \<noteq> []" and "\<forall>c\<in>set ds. is_digit c"
    and "case b of [] \<Rightarrow> True | x # _ \<Rightarrow> \<not> is_digit x"
  shows "extract_index_from_filename (a @ ds @ b) [] default_pattern =
    Inr (Some (int (foldl (\<lambda>v c. 10 * v + digit_val c) 0 ds)))"
proof -
  from ms_default_greedy [OF assms(2,3,4), of 1 Map.empty] obtain alts where
    m: "ms default_pattern 1 (drop (length a) (a @ ds @ b), Map.empty) = (b, [1 \<mapsto> ds]) # alts"
    by auto
  have n: "\<forall>i<length a. ms default_pattern 1 (drop i (a @ ds @ b), Map.empty) = []"
  proof (intro allI impI)
    fix i assume i: "i < length a"
    then have "drop i (a @ ds @ b) = a ! i # drop (Suc i) a @ ds @ b"
      by (simp add: Cons_nth_drop_Suc)
    moreover have "\<not> is_digit (a ! i)" using assms(1) i by simp
    ultimately show "ms default_pattern 1 (drop i (a @ ds @ b), Map.empty) = []"
      by (simp add: ms_default_empty_iff)
  qed
  have l: "length a \<le> length (a @ ds @ b)" by simp
  from extract_first_match [OF l m n] py_int_digits [OF assms(2,3)]
  show ?thesis by (simp add: default_pattern_def)
qed

lemma extract_default_no_digit:
  assumes "\<forall>c\<in>set name. \<not> is_digit c"
  shows "extract_index_from_filename name [] default_pattern = Inr None"
proof -
  have "search_from default_pattern 0 name = None"
    using assms by (simp add: search_default_None_iff)
  then show ?thesis
    by (simp add: extract_index_from_filename_def startswith_def re_search_def)
qed

text \<open>
  C3. If the filename starts with the prefix, extraction works on the rest of the name
  after exactly the prefix, otherwise on the whole name. On a name \<open>name\<close> (prefix
  already handled): when the pattern matches at no position of the name, the result is
  no key; when \<open>j\<close> is the leftmost position at which the pattern matches and \<open>st'\<close>
  is the first way it matches there, the result is \<open>int\<close> of group 1 of that match
  (\<open>IndexError\<close> for a pattern without groups, \<open>TypeError\<close> when group 1 took no
  part). For the default pattern this is the base-10 value of the first maximal run of
  decimal digits of the name, and no key for a name without a digit. On a non-empty
  string of decimal digits \<open>int\<close> is the base-10 value.
\<close>

theorem extract_index_spec:
  "(startswith filename pre \<longrightarrow>
      (\<exists>rest. filename = pre @ rest \<and>
         extract_index_from_filename filename pre pat = extract_index_from_filename rest [] pat)) \<and>
   (\<not> startswith filename pre \<longrightarrow>
      extract_index_from_filename filename pre pat = extract_index_from_filename filename [] pat) \<and>
   ((\<forall>j\<le>length name. ms pat 1 (drop j name, Map.empty) = []) \<longrightarrow>
      extract_index_from_filename name [] pat = Inr None) \<and>
   (\<forall>j st' alts.
      j \<le> length name \<and> ms pat 1 (drop j name, Map.empty) = st' # alts \<and>
      (\<forall>i<j. ms pat 1 (drop i name, Map.empty) = []) \<longrightarrow>
      re_search pat name =
        Some \<lparr>m_start = j, m_text = take (length name - j - length (fst st')) (drop j name),
              m_groups = snd st', m_ngroups = ngroups pat\<rparr> \<and>
      extract_index_from_filename name [] pat =
        (if ngroups pat = 0 then Inl IndexError
         else case snd st' 1 of
                None \<Rightarrow> Inl TypeError
              | Some g \<Rightarrow> (case py_int g of Inl e \<Rightarrow> Inl e | Inr n \<Rightarrow> Inr (Some n)))) \<and>
   ((\<forall>c\<in>set a. \<not> is_digit c) \<and> ds \<noteq> [] \<and> (\<forall>c\<in>set ds. is_digit c) \<and>
    (case b of [] \<Rightarrow> True | x # _ \<Rightarrow> \<not> is_digit x) \<longrightarrow>
      extract_index_from_filename (a @ ds @ b) [] default_pattern =
        Inr (Some (int (foldl (\<lambda>v c. 10 * v + digit_val c) 0 ds)))) \<and>
   ((\<forall>c\<in>set name. \<not> is_digit c) \<longrightarrow>
      extract_index_from_filename name [] default_pattern = Inr None) \<and>
   (ds \<noteq> [] \<and> (\<forall>c\<in>set ds. is_digit c) \<longrightarrow>
      py_int ds = Inr (int (foldl (\<lambda>v c. 10 * v + digit_val c) 0 ds)))"
proof (intro conjI impI allI)
  assume sw: "startswith filename pre"
  then have "filename = pre @ drop (length pre) filename"
    by (metis append_take_drop_id startswith_def)
  moreover have "extract_index_from_filename filename pre pat =
      extract_index_from_filename (drop (length pre) filename) [] pat"
    using sw extract_no_prefix [of filename pre pat] by simp
  ultimately show "\<exists>rest. filename = pre @ rest \<and>
      extract_index_from_filename filename pre pat = extract_index_from_filename rest [] pat"
    by blast
next
  assume "\<not> startswith filename pre"
  then show "extract_index_from_filename filename pre pat =
      extract_index_from_filename filename [] pat"
    using extract_no_prefix [of filename pre pat] by simp
next
  assume "\<forall>j\<le>length name. ms pat 1 (drop j name, Map.empty) = []"
  then show "extract_index_from_filename name [] pat = Inr None"
    by (rule extract_no_match)
next
  fix j st' alts
  assume h: "j \<le> length name \<and> ms pat 1 (drop j name, Map.empty) = st' # alts \<and>
      (\<forall>i<j. ms pat 1 (drop i name, Map.empty) = [])"
  then have 1: "j \<le> length name" and 2: "ms pat 1 (drop j name, Map.empty) = st' # alts"
    and 3: "\<forall>i<j. ms pat 1 (drop i name, Map.empty) = []" by blast+
  from search_from_first [OF 1 2 3, of 0]
  show "re_search pat name =
      Some \<lparr>m_start = j, m_text = take (length name - j - length (fst st')) (drop j name),
            m_groups = snd st', m_ngroups = ngroups pat\<rparr>"
    by (simp add: re_search_def)
  from extract_first_match [OF 1 2 3]
  show "extract_index_from_filename name [] pat =
      (if ngroups pat = 0 then Inl IndexError
       else case snd st' 1 of
              None \<Rightarrow> Inl TypeError
            | Some g \<Rightarrow> (case py_int g of Inl e \<Rightarrow> Inl e | Inr n \<Rightarrow> Inr (Some n)))" .
next
  assume "(\<forall>c\<in>set a. \<not> is_digit c) \<and> ds \<noteq> [] \<and> (\<forall>c\<in>set ds. is_digit c) \<and>
    (case b of [] \<Rightarrow> True | x # _ \<Rightarrow> \<not> is_digit x)"
  then show "extract_index_from_filename (a @ ds @ b) [] default_pattern =
      Inr (Some (int (foldl (\<lambda>v c. 10 * v + digit_val c) 0 ds)))"
    using extract_default_first_run by blast
next
  assume "\<forall>c\<in>set name. \<not> is_digit c"
  then show "extract_index_from_filename name [] default_pattern = Inr None"
    by (rule extract_default_no_digit)
next
  assume "ds \<noteq> [] \<and> (\<forall>c\<in>set ds. is_digit c)"
  then show "py_int ds = Inr (int (foldl (\<lambda>v c. 10 * v + digit_val c) 0 ds))"
    using py_int_digits by blast
qed

theorem extract_index_spec_witness:
  "startswith ''doc_10.pdf'' ''doc_'' \<and>
   extract_index_from_filename ''doc_10.pdf'' ''doc_'' default_pattern =
     extract_index_from_filename ''10.pdf'' [] default_pattern \<and>
   \<not> startswith ''x7.pdf'' ''doc_'' \<and>
   extract_index_from_filename ''x7.pdf'' ''doc_'' default_pattern =
     extract_index_from_filename ''x7.pdf'' [] default_pattern \<and>
   ms (Seq (Chr CHR ''_'') (Group (Plus Digit))) 1 (''a1'', Map.empty) = [] \<and>
   ms (Seq (Chr CHR ''_'') (Group (Plus Digit))) 1 (''1'', Map.empty) = [] \<and>
   ms (Seq (Chr CHR ''_'') (Group (Plus Digit))) 1 ([], Map.empty) = [] \<and>
   extract_index_from_filename ''a1'' [] (Seq (Chr CHR ''_'') (Group (Plus Digit))) = Inr None \<and>
   (2 :: nat) \<le> length ''a1_22.pdf'' \<and>
   ms (Seq (Chr CHR ''_'') (Group (Plus Digit))) 1 (''a1_22.pdf'', Map.empty) = [] \<and>
   ms (Seq (Chr CHR ''_'') (Group (Plus Digit))) 1 (''1_22.pdf'', Map.empty) = [] \<and>
   ms (Seq (Chr CHR ''_'') (Group (Plus Digit))) 1 (''_22.pdf'', Map.empty) =
     [(''.pdf'', [1 \<mapsto> ''22'']), (''2.pdf'', [1 \<mapsto> ''2''])] \<and>
   re_search (Seq (Chr CHR ''_'') (Group (Plus Digit))) ''a1_22.pdf'' =
     Some \<lparr>m_start = 2, m_text = ''_22'', m_groups = [1 \<mapsto> ''22''], m_ngroups = 1\<rparr> \<and>
   extract_index_from_filename ''a1_22.pdf'' [] (Seq (Chr CHR ''_'') (Group (Plus Digit))) =
     Inr (Some 22) \<and>
   \<not> is_digit CHR ''a'' \<and> \<not> is_digit CHR ''b'' \<and> \<not> is_digit CHR ''.'' \<and>
   ''10'' \<noteq> [] \<and> is_digit CHR ''1'' \<and> is_digit CHR ''0'' \<and>
   extract_index_from_filename ''ab10.7'' [] default_pattern = Inr (Some 10) \<and>
   \<not> is_digit CHR ''c'' \<and> extract_index_from_filename ''abc'' [] default_pattern = Inr None \<and>
   py_int ''10'' = Inr 10"
proof -
  let ?p = "Seq (Chr CHR ''_'') (Group (Plus Digit))"
  have s1: "startswith ''doc_10.pdf'' ''doc_''" by code_simp
  have s2: "\<not> startswith ''x7.pdf'' ''doc_''" by code_simp
  have n0: "ms ?p 1 (''a1'', Map.empty) = []" by (simp add: one_char_def)
  have n1: "ms ?p 1 (''1'', Map.empty) = []" by (simp add: one_char_def)
  have n2: "ms ?p 1 ([], Map.empty) = []" by (simp add: one_char_def)
  have m0: "ms ?p 1 (''a1_22.pdf'', Map.empty) = []" by (simp add: one_char_def)
  have m1: "ms ?p 1 (''1_22.pdf'', Map.empty) = []" by (simp add: one_char_def)
  have m2: "ms ?p 1 (''_22.pdf'', Map.empty) =
      [(''.pdf'', [1 \<mapsto> ''22'']), (''2.pdf'', [1 \<mapsto> ''2''])]"
    by (simp add: one_char_def ms_plus_digit_Cons is_digit_def)
  have l: "(2 :: nat) \<le> length ''a1_22.pdf''" by simp
  have dg: "\<not> is_digit CHR ''a'' \<and> \<not> is_digit CHR ''b'' \<and> \<not> is_digit CHR ''.'' \<and>
      \<not> is_digit CHR ''c'' \<and> is_digit CHR ''1'' \<and> is_digit CHR ''0''"
    by (simp add: is_digit_def)
  note t1 = extract_index_spec [where filename = "''doc_10.pdf''" and pre = "''doc_''"
      and pat = default_pattern and name = "''abc''" and a = "''ab''" and ds = "''10''"
      and b = "''.7''"]
  note t2 = extract_index_spec [where filename = "''x7.pdf''" and pre = "''doc_''"
      and pat = ?p and name = "''a1''" and a = "''ab''" and ds = "''10''" and b = "''.7''"]
  note t3 = extract_index_spec [where filename = "''x7.pdf''" and pre = "''doc_''"
      and pat = ?p and name = "''a1_22.pdf''" and a = "''ab''" and ds = "''10''" and b = "''.7''"]
  note t4 = extract_index_spec [where filename = "''x7.pdf''" and pre = "''doc_''"
      and pat = default_pattern and name = "''abc''" and a = "''ab''" and ds = "''10''"
      and b = "''.7''"]
  from t1 s1 have a: "extract_index_from_filename ''doc_10.pdf'' ''doc_'' default_pattern =
     extract_index_from_filename ''10.pdf'' [] default_pattern" by auto
  from t4 s2 have b: "extract_index_from_filename ''x7.pdf'' ''doc_'' default_pattern =
     extract_index_from_filename ''x7.pdf'' [] default_pattern" by blast
  have "\<forall>j\<le>length ''a1''. ms ?p 1 (drop j ''a1'', Map.empty) = []"
    using n0 n1 n2 by (simp add: le_Suc_eq all_conj_distrib numeral_2_eq_2)
  with t2 have c: "extract_index_from_filename ''a1'' [] ?p = Inr None" by blast
  have lm: "\<forall>i<2. ms ?p 1 (drop i ''a1_22.pdf'', Map.empty) = []"
    using m0 m1 by (simp add: less_Suc_eq all_conj_distrib numeral_2_eq_2)
  have m2': "ms ?p 1 (drop 2 ''a1_22.pdf'', Map.empty) =
      (''.pdf'', [1 \<mapsto> ''22'']) # [(''2.pdf'', [1 \<mapsto> ''2''])]"
    using m2 by simp
  have i22: "py_int ''22'' = Inr 22" by code_simp
  from t3 l m2' lm have
    d: "re_search ?p ''a1_22.pdf'' =
        Some \<lparr>m_start = 2, m_text = take (length ''a1_22.pdf'' - 2 - length (fst (''.pdf'', [(1::nat) \<mapsto> ''22''])))
                 (drop 2 ''a1_22.pdf''),
              m_groups = snd (''.pdf'', [1 \<mapsto> ''22'']), m_ngroups = ngroups ?p\<rparr>"
    and e: "extract_index_from_filename ''a1_22.pdf'' [] ?p =
        (if ngroups ?p = 0 then Inl IndexError
         else case snd (''.pdf'', [(1::nat) \<mapsto> ''22'']) 1 of
                None \<Rightarrow> Inl TypeError
              | Some g \<Rightarrow> (case py_int g of Inl e \<Rightarrow> Inl e | Inr n \<Rightarrow> Inr (Some n)))"
    by blast+
  from d have d': "re_search ?p ''a1_22.pdf'' =
      Some \<lparr>m_start = 2, m_text = ''_22'', m_groups = [1 \<mapsto> ''22''], m_ngroups = 1\<rparr>"
    by simp
  from e i22 have e': "extract_index_from_filename ''a1_22.pdf'' [] ?p = Inr (Some 22)"
    by simp
  have h5: "(\<forall>c\<in>set ''ab''. \<not> is_digit c) \<and> ''10'' \<noteq> [] \<and> (\<forall>c\<in>set ''10''. is_digit c) \<and>
      (case ''.7'' of [] \<Rightarrow> True | x # _ \<Rightarrow> \<not> is_digit x)"
    using dg by simp
  with t1 have f: "extract_index_from_filename (''ab'' @ ''10'' @ ''.7'') [] default_pattern =
      Inr (Some (int (foldl (\<lambda>v c. 10 * v + digit_val c) 0 ''10'')))" by blast
  then have f': "extract_index_from_filename ''ab10.7'' [] default_pattern = Inr (Some 10)"
    by (simp add: digit_val_def)
  have "\<forall>c\<in>set ''abc''. \<not> is_digit c" using dg by simp
  with t1 have g: "extract_index_from_filename ''abc'' [] default_pattern = Inr None" by blast
  from t1 h5 have "py_int ''10'' = Inr (int (foldl (\<lambda>v c. 10 * v + digit_val c) 0 ''10''))"
    by blast
  then have i: "py_int ''10'' = Inr 10" by (simp add: digit_val_def)
  from s1 a s2 b n0 n1 n2 c l m0 m1 m2 d' e' dg f' g i show ?thesis by simp
qed

text \<open>
  C10. A pattern without capture groups that matches the (prefix-stripped) name makes the
  call raise \<open>IndexError\<close> (no such group) instead of returning a key or no key; an
  example is \<open>\d+\<close> on \<open>a1.pdf\<close>. With the default pattern, which has one group, the
  call never raises.
\<close>

theorem extract_total_needs_group:
  "(ngroups pat = 0 \<and>
    re_search pat (if startswith filename pre then drop (length pre) filename else filename) \<noteq> None
      \<longrightarrow> extract_index_from_filename filename pre pat = Inl IndexError) \<and>
   extract_index_from_filename ''a1.pdf'' [] (Plus Digit) = Inl IndexError \<and>
   ngroups default_pattern = 1 \<and>
   (\<exists>r. extract_index_from_filename filename pre default_pattern = Inr r)"
proof (intro conjI impI)
  assume a: "ngroups pat = 0 \<and>
    re_search pat (if startswith filename pre then drop (length pre) filename else filename) \<noteq> None"
  then obtain m where
    m: "re_search pat (if startswith filename pre then drop (length pre) filename else filename) = Some m"
    by blast
  from search_from_Some [OF m [unfolded re_search_def]] a have "m_ngroups m = 0" by simp
  then have "group m 1 = Inl IndexError" by (simp add: group_def)
  with m show "extract_index_from_filename filename pre pat = Inl IndexError"
    by (simp add: extract_index_from_filename_def)
next
  show "extract_index_from_filename ''a1.pdf'' [] (Plus Digit) = Inl IndexError"
    by code_simp
next
  show "ngroups default_pattern = 1" by (simp add: default_pattern_def)
next
  show "\<exists>r. extract_index_from_filename filename pre default_pattern = Inr r"
    by (rule extract_default_total)
qed

theorem extract_total_needs_group_witness:
  "ngroups (Chr CHR ''x'') = 0 \<and> re_search (Chr CHR ''x'') ''x.pdf'' \<noteq> None \<and>
   startswith ''doc_x.pdf'' ''doc_'' \<and>
   extract_index_from_filename ''doc_x.pdf'' ''doc_'' (Chr CHR ''x'') = Inl IndexError"
proof -
  have s: "startswith ''doc_x.pdf'' ''doc_''" by code_simp
  have h: "ngroups (Chr CHR ''x'') = 0 \<and> re_search (Chr CHR ''x'') ''x.pdf'' \<noteq> None" by code_simp
  have d: "(if startswith ''doc_x.pdf'' ''doc_'' then drop (length ''doc_'') ''doc_x.pdf''
            else ''doc_x.pdf'') = ''x.pdf''"
    using s by simp
  from extract_total_needs_group [of "Chr CHR ''x''" "''doc_x.pdf''" "''doc_''"] h
  have "extract_index_from_filename ''doc_x.pdf'' ''doc_'' (Chr CHR ''x'') = Inl IndexError"
    unfolding d by blast
  with s h show ?thesis by blast
qed

subsection \<open>Dictionaries\<close>

lemma dict_set_keys:
  "map fst (dict_set d k v) = (if k \<in> fst ` set d then map fst d else map fst d @ [k])"
proof (induction d)
  case Nil
  then show ?case by simp
next
  case (Cons p d)
  obtain k' v' where p: "p = (k', v')" by (cases p)
  show ?case using Cons.IH by (cases "k' = k") (simp_all add: p)
qed

lemma dict_set_absent: "k \<notin> fst ` set d \<Longrightarrow> dict_set d k v = d @ [(k, v)]"
proof (induction d)
  case Nil
  then show ?case by simp
next
  case (Cons p d)
  obtain k' v' where p: "p = (k', v')" by (cases p)
  show ?case using Cons by (cases "k' = k") (simp_all add: p)
qed

lemma dict_set_subset: "set (dict_set d k v) \<subseteq> insert (k, v) (set d)"
proof (induction d)
  case Nil
  then show ?case by simp
next
  case (Cons p d)
  obtain k' v' where p: "p = (k', v')" by (cases p)
  show ?case using Cons.IH by (cases "k' = k") (auto simp: p)
qed

lemma dict_set_dom: "fst ` set (dict_set d k v) = insert k (fst ` set d)"
proof -
  have "set (map fst (dict_set d k v)) = insert k (set (map fst d))"
    unfolding dict_set_keys by auto
  then show ?thesis by simp
qed

lemma dict_set_other: "(k', v') \<in> set d \<Longrightarrow> k' \<noteq> k \<Longrightarrow> (k', v') \<in> set (dict_set d k v)"
proof (induction d)
  case Nil
  then show ?case by simp
next
  case (Cons p d)
  obtain k0 v0 where p: "p = (k0, v0)" by (cases p)
  show ?case using Cons by (cases "k0 = k") (auto simp: p)
qed

lemma build_distinct:
  "distinct (map fst ps) \<Longrightarrow> fst ` set d \<inter> fst ` set ps = {} \<Longrightarrow>
   foldl (\<lambda>d (k, v). dict_set d k v) d ps = d @ ps"
proof (induction ps arbitrary: d)
  case Nil
  then show ?case by simp
next
  case (Cons p ps)
  obtain k v where p: "p = (k, v)" by (cases p)
  have a: "dict_set d k v = d @ [(k, v)]" using Cons.prems(2) p by (intro dict_set_absent) auto
  have "foldl (\<lambda>d (k, v). dict_set d k v) (d @ [(k, v)]) ps = (d @ [(k, v)]) @ ps"
    using Cons.prems p by (intro Cons.IH) auto
  then show ?case using a p by simp
qed

subsection \<open>Positions\<close>

lemma index_of_Cons: "index_of a (x # xs) = (if x = a then 0 else Suc (index_of a xs))"
  by (simp add: index_of_def)

lemma index_of_less: "a \<in> set xs \<Longrightarrow> index_of a xs < length xs"
  by (induction xs) (auto simp: index_of_Cons)

lemma index_of_append_in: "a \<in> set xs \<Longrightarrow> index_of a (xs @ ys) = index_of a xs"
  by (induction xs) (auto simp: index_of_Cons)

lemma index_of_append_notin: "a \<notin> set xs \<Longrightarrow> index_of a (xs @ ys) = length xs + index_of a ys"
  by (induction xs) (auto simp: index_of_Cons)

lemma index_of_nth: "distinct xs \<Longrightarrow> i < length xs \<Longrightarrow> index_of (xs ! i) xs = i"
proof (induction xs arbitrary: i)
  case Nil
  then show ?case by simp
next
  case (Cons x xs)
  then show ?case by (cases i) (auto simp: index_of_Cons)
qed

text \<open>Appending a key that is new to the listing keeps the keys in listing order.\<close>

lemma order_extend:
  assumes sub: "set ks \<subseteq> set F"
    and srt: "sorted_wrt (\<lambda>a b. index_of a F < index_of b F) ks"
  shows "sorted_wrt (\<lambda>a b. index_of a (F @ [f]) < index_of b (F @ [f])) ks"
    and "f \<notin> set F \<Longrightarrow> sorted_wrt (\<lambda>a b. index_of a (F @ [f]) < index_of b (F @ [f])) (ks @ [f])"
proof -
  have eq: "\<And>a. a \<in> set ks \<Longrightarrow> index_of a (F @ [f]) = index_of a F"
    using sub by (auto intro: index_of_append_in)
  show 1: "sorted_wrt (\<lambda>a b. index_of a (F @ [f]) < index_of b (F @ [f])) ks"
    using srt by (rule sorted_wrt_mono_rel [rotated]) (simp add: eq)
  assume nf: "f \<notin> set F"
  have "\<And>a. a \<in> set ks \<Longrightarrow> index_of a (F @ [f]) < index_of f (F @ [f])"
  proof -
    fix a assume a: "a \<in> set ks"
    then have "index_of a (F @ [f]) = index_of a F" by (rule eq)
    moreover have "index_of a F < length F" using a sub by (auto intro: index_of_less)
    moreover have "index_of f (F @ [f]) = length F"
      using nf by (simp add: index_of_append_notin index_of_Cons)
    ultimately show "index_of a (F @ [f]) < index_of f (F @ [f])" by simp
  qed
  with 1 show "sorted_wrt (\<lambda>a b. index_of a (F @ [f]) < index_of b (F @ [f])) (ks @ [f])"
    by (simp add: sorted_wrt_append)
qed

subsection \<open>Stable sorting\<close>

lemma insort_key_lex:
  assumes "sorted_wrt (\<lambda>a b. f a < f b \<or> (f a = f b \<and> R a b)) ys" and "\<forall>y\<in>set ys. R x y"
  shows "sorted_wrt (\<lambda>a b. f a < f b \<or> (f a = f b \<and> R a b)) (insort_key f x ys)"
  using assms
proof (induction ys)
  case Nil
  then show ?case by simp
next
  case (Cons y ys)
  show ?case
  proof (cases "f x \<le> f y")
    case True
    have "\<forall>z\<in>set (y # ys). f x < f z \<or> (f x = f z \<and> R x z)"
      using True Cons.prems by fastforce
    then show ?thesis using True Cons.prems(1) by simp
  next
    case False
    have "sorted_wrt (\<lambda>a b. f a < f b \<or> (f a = f b \<and> R a b)) (insort_key f x ys)"
      using Cons by simp
    moreover have "\<forall>z\<in>set (insort_key f x ys). f y < f z \<or> (f y = f z \<and> R y z)"
      using False Cons.prems(1) by (auto simp: set_insort_key)
    ultimately show ?thesis using False by simp
  qed
qed

lemma sort_key_lex:
  "sorted_wrt R xs \<Longrightarrow> sorted_wrt (\<lambda>a b. f a < f b \<or> (f a = f b \<and> R a b)) (sort_key f xs)"
proof (induction xs)
  case Nil
  then show ?case by simp
next
  case (Cons x xs)
  then show ?case by (auto intro!: insort_key_lex)
qed

lemma sorted_by_value_stable:
  assumes "sorted_wrt (\<lambda>a b. index_of a F < index_of b F) (map fst d)"
    and "i < j" and "j < length (sorted_by_value d)"
    and "snd (sorted_by_value d ! i) = snd (sorted_by_value d ! j)"
  shows "index_of (fst (sorted_by_value d ! i)) F < index_of (fst (sorted_by_value d ! j)) F"
proof -
  have "sorted_wrt (\<lambda>a b. index_of (fst a) F < index_of (fst b) F) d"
    using assms(1) by (simp add: sorted_wrt_map)
  from sort_key_lex [OF this, of snd]
  have "sorted_wrt (\<lambda>a b. snd a < snd b \<or>
      (snd a = snd b \<and> index_of (fst a) F < index_of (fst b) F)) (sorted_by_value d)"
    by (simp add: sorted_by_value_def)
  from sorted_wrt_nth_less [OF this assms(2,3)] assms(4) show ?thesis by simp
qed

subsection \<open>The index strategy\<close>

lemma index_loop_total:
  "\<forall>f\<in>set files. \<exists>r. extract_index_from_filename f pre pat = Inr r \<Longrightarrow>
   \<exists>d' out'. index_loop files pre pat d out = (Inr d', out')"
proof (induction files arbitrary: d out)
  case Nil
  then show ?case by simp
next
  case (Cons f files)
  then obtain r where r: "extract_index_from_filename f pre pat = Inr r" by auto
  show ?case using Cons r by (cases r) auto
qed

lemma index_loop_result:
  "index_loop files pre pat d out = (Inr d', out') \<Longrightarrow>
   out' = out @ map no_index_warning
            (filter (\<lambda>f. extract_index_from_filename f pre pat = Inr None) files) \<and>
   fst ` set d' = fst ` set d \<union>
     {f \<in> set files. \<exists>k. extract_index_from_filename f pre pat = Inr (Some k)} \<and>
   (\<forall>e\<in>set d'. e \<in> set d \<or>
      (fst e \<in> set files \<and> extract_index_from_filename (fst e) pre pat = Inr (Some (snd e))))"
proof (induction files arbitrary: d out)
  case Nil
  then show ?case by auto
next
  case (Cons f files)
  show ?case
  proof (cases "extract_index_from_filename f pre pat")
    case (Inl e)
    with Cons.prems show ?thesis by simp
  next
    case (Inr r)
    show ?thesis
    proof (cases r)
      case None
      with Inr Cons.prems
      have "index_loop files pre pat d (out @ [no_index_warning f]) = (Inr d', out')" by simp
      from Cons.IH [OF this] show ?thesis using Inr None by auto
    next
      case (Some k)
      with Inr Cons.prems
      have "index_loop files pre pat (dict_set d f k) out = (Inr d', out')" by simp
      from Cons.IH [OF this] have
        o: "out' = out @ map no_index_warning
            (filter (\<lambda>f. extract_index_from_filename f pre pat = Inr None) files)"
        and k: "fst ` set d' = fst ` set (dict_set d f k) \<union>
            {f \<in> set files. \<exists>k. extract_index_from_filename f pre pat = Inr (Some k)}"
        and e: "\<forall>e\<in>set d'. e \<in> set (dict_set d f k) \<or>
            (fst e \<in> set files \<and> extract_index_from_filename (fst e) pre pat = Inr (Some (snd e)))"
        by blast+
      have 1: "out' = out @ map no_index_warning
            (filter (\<lambda>f. extract_index_from_filename f pre pat = Inr None) (f # files))"
        using o Inr Some by simp
      have 2: "fst ` set d' = fst ` set d \<union>
            {g \<in> set (f # files). \<exists>k. extract_index_from_filename g pre pat = Inr (Some k)}"
        using k Inr Some by (auto simp: dict_set_dom)
      have 3: "\<forall>e\<in>set d'. e \<in> set d \<or> (fst e \<in> set (f # files) \<and>
            extract_index_from_filename (fst e) pre pat = Inr (Some (snd e)))"
      proof
        fix x assume "x \<in> set d'"
        with e have "x \<in> set (dict_set d f k) \<or>
            (fst x \<in> set files \<and> extract_index_from_filename (fst x) pre pat = Inr (Some (snd x)))"
          by blast
        moreover have "x \<in> set (dict_set d f k) \<Longrightarrow> x = (f, k) \<or> x \<in> set d"
          using dict_set_subset [of d f k] by auto
        ultimately show "x \<in> set d \<or> (fst x \<in> set (f # files) \<and>
            extract_index_from_filename (fst x) pre pat = Inr (Some (snd x)))"
          using Inr Some by auto
      qed
      from 1 2 3 show ?thesis by blast
    qed
  qed
qed

lemma index_loop_keyed:
  "distinct files \<Longrightarrow> set files \<inter> fst ` set d = {} \<Longrightarrow>
   \<forall>f\<in>set files. \<exists>k. extract_index_from_filename f pre pat = Inr (Some k) \<Longrightarrow>
   \<exists>ks. length ks = length files \<and> index_loop files pre pat d out = (Inr (d @ zip files ks), out)"
proof (induction files arbitrary: d)
  case Nil
  then show ?case by simp
next
  case (Cons f files)
  then obtain k where k: "extract_index_from_filename f pre pat = Inr (Some k)" by auto
  have a: "dict_set d f k = d @ [(f, k)]" using Cons.prems(2) by (intro dict_set_absent) auto
  have "\<exists>ks. length ks = length files \<and>
      index_loop files pre pat (d @ [(f, k)]) out = (Inr ((d @ [(f, k)]) @ zip files ks), out)"
    using Cons.prems by (intro Cons.IH) auto
  then obtain ks where "length ks = length files"
    "index_loop files pre pat (d @ [(f, k)]) out = (Inr ((d @ [(f, k)]) @ zip files ks), out)"
    by blast
  then show ?case using k a by (intro exI [of _ "k # ks"]) simp
qed

lemma index_loop_order:
  assumes "index_loop files pre pat d out = (Inr d', out')"
    and "fst ` set d \<subseteq> set F"
    and "sorted_wrt (\<lambda>a b. index_of a F < index_of b F) (map fst d)"
    and "\<forall>f\<in>set F. f \<notin> fst ` set d \<longrightarrow> extract_index_from_filename f pre pat = Inr None"
  shows "sorted_wrt (\<lambda>a b. index_of a (F @ files) < index_of b (F @ files)) (map fst d')"
  using assms
proof (induction files arbitrary: d out F)
  case Nil
  then show ?case by simp
next
  case (Cons f files)
  have sub: "set (map fst d) \<subseteq> set F" using Cons.prems(2) by simp
  show ?case
  proof (cases "extract_index_from_filename f pre pat")
    case (Inl e)
    with Cons.prems(1) show ?thesis by simp
  next
    case (Inr r)
    show ?thesis
    proof (cases r)
      case None
      with Inr Cons.prems(1)
      have l: "index_loop files pre pat d (out @ [no_index_warning f]) = (Inr d', out')" by simp
      have "sorted_wrt (\<lambda>a b. index_of a ((F @ [f]) @ files) < index_of b ((F @ [f]) @ files))
          (map fst d')"
        using Cons.prems(2,4) order_extend(1) [OF sub Cons.prems(3), of f] Inr None
        by (intro Cons.IH [OF l]) auto
      then show ?thesis by simp
    next
      case (Some k)
      with Inr Cons.prems(1)
      have l: "index_loop files pre pat (dict_set d f k) out = (Inr d', out')" by simp
      have s: "sorted_wrt (\<lambda>a b. index_of a (F @ [f]) < index_of b (F @ [f]))
          (map fst (dict_set d f k))"
      proof (cases "f \<in> fst ` set d")
        case True
        then show ?thesis using order_extend(1) [OF sub Cons.prems(3), of f]
          by (simp add: dict_set_keys)
      next
        case False
        then have "f \<notin> set F" using Cons.prems(4) Inr Some by auto
        from order_extend(2) [OF sub Cons.prems(3) this] False show ?thesis
          by (simp add: dict_set_keys)
      qed
      have "sorted_wrt (\<lambda>a b. index_of a ((F @ [f]) @ files) < index_of b ((F @ [f]) @ files))
          (map fst d')"
        using Cons.prems(2,4) s by (intro Cons.IH [OF l]) (auto simp: dict_set_dom)
      then show ?thesis by simp
    qed
  qed
qed

subsection \<open>The explicit strategy\<close>

lemma build_order:
  assumes "fst ` set d = set F"
    and "sorted_wrt (\<lambda>a b. index_of a F < index_of b F) (map fst d)"
  shows "sorted_wrt (\<lambda>a b. index_of a (F @ map fst ps) < index_of b (F @ map fst ps))
           (map fst (foldl (\<lambda>d (k, v). dict_set d k v) d ps))"
  using assms
proof (induction ps arbitrary: d F)
  case Nil
  then show ?case by simp
next
  case (Cons p ps)
  obtain k v where p: "p = (k, v)" by (cases p)
  have sub: "set (map fst d) \<subseteq> set F" using Cons.prems(1) by simp
  have s: "sorted_wrt (\<lambda>a b. index_of a (F @ [k]) < index_of b (F @ [k]))
      (map fst (dict_set d k v))"
  proof (cases "k \<in> fst ` set d")
    case True
    then show ?thesis using order_extend(1) [OF sub Cons.prems(2), of k]
      by (simp add: dict_set_keys)
  next
    case False
    then have "k \<notin> set F" using Cons.prems(1) by simp
    from order_extend(2) [OF sub Cons.prems(2) this] False show ?thesis
      by (simp add: dict_set_keys)
  qed
  have "sorted_wrt (\<lambda>a b. index_of a ((F @ [k]) @ map fst ps) < index_of b ((F @ [k]) @ map fst ps))
      (map fst (foldl (\<lambda>d (k, v). dict_set d k v) (dict_set d k v) ps))"
    using Cons.prems(1) s by (intro Cons.IH) (auto simp: dict_set_dom)
  then show ?case by (simp add: p)
qed

lemma digit_gives_key:
  assumes "\<exists>c\<in>set (if startswith f pre then drop (length pre) f else f). is_digit c"
  shows "\<exists>k. extract_index_from_filename f pre default_pattern = Inr (Some k)"
proof -
  define clean where "clean = (if startswith f pre then drop (length pre) f else f)"
  have "re_search default_pattern clean \<noteq> None"
    using assms search_default_None_iff [of 0 clean] by (simp add: re_search_def clean_def)
  then obtain m where m: "re_search default_pattern clean = Some m" by blast
  from search_default_group [OF m] obtain ds where
    ds: "ds \<noteq> []" "\<forall>x\<in>set ds. is_digit x" "group m 1 = Inr (Some ds)" by blast
  from py_int_digits [OF ds(1,2)] ds(3) m show ?thesis
    by (simp add: extract_index_from_filename_def clean_def [symmetric])
qed

section \<open>Properties of planning\<close>

lemma main_plan_error:
  assumes "list_pdf_files (env_listdir e) (arg_input_folder a) = pdf_files" and "pdf_files \<noteq> []"
    and "plan_step a pdf_files = (Inl err, out)"
  shows "main a e files = (Inl err, out, files)"
  using assms by (simp add: main_def)

lemma main_no_plan:
  assumes "list_pdf_files (env_listdir e) (arg_input_folder a) = pdf_files" and "pdf_files \<noteq> []"
    and "plan_step a pdf_files = (Inr [], out)"
  shows "main a e files = (Inr (), out @ [no_valid_message], files)"
  using assms by (simp add: main_def)

lemma main_no_files:
  assumes "list_pdf_files (env_listdir e) (arg_input_folder a) = []"
  shows "main a e files = (Inr (), [no_pdfs_message (arg_input_folder a)], files)"
  using assms by (simp add: main_def)

text \<open>
  C6. The explicit strategy raises the count-mismatch error exactly when the number of
  order values differs from the number of files. When \<open>main\<close> is given such an order
  list, the file system is left as it was, and the error leaves \<open>main\<close> (unless the
  listing has no PDF file, where \<open>main\<close> has returned before planning).
\<close>

theorem order_count_mismatch:
  "((get_sorted_pdfs_by_order pdf_files order = Inl OrderCountMismatch) =
      (length pdf_files \<noteq> length order)) \<and>
   (given (arg_custom_order a) \<and> parse_custom_order (the (arg_custom_order a)) = Inr order \<and>
    list_pdf_files (env_listdir e) (arg_input_folder a) = pdf_files \<and>
    length pdf_files \<noteq> length order \<longrightarrow>
      snd (snd (main a e files)) = files \<and>
      (pdf_files \<noteq> [] \<longrightarrow> fst (main a e files) = Inl OrderCountMismatch))"
proof (intro conjI impI)
  show "(get_sorted_pdfs_by_order pdf_files order = Inl OrderCountMismatch) =
      (length pdf_files \<noteq> length order)"
    by (simp add: get_sorted_pdfs_by_order_def Let_def)
next
  assume h: "given (arg_custom_order a) \<and> parse_custom_order (the (arg_custom_order a)) = Inr order \<and>
    list_pdf_files (env_listdir e) (arg_input_folder a) = pdf_files \<and>
    length pdf_files \<noteq> length order"
  then have p: "plan_step a pdf_files = (Inl OrderCountMismatch, [])"
    by (simp add: plan_step_def get_sorted_pdfs_by_order_def)
  show "snd (snd (main a e files)) = files"
  proof (cases "pdf_files = []")
    case True
    with h show ?thesis using main_no_files [of e a files] by simp
  next
    case False
    with h p show ?thesis using main_plan_error [of e a pdf_files OrderCountMismatch "[]" files]
      by simp
  qed
  assume "pdf_files \<noteq> []"
  with h p show "fst (main a e files) = Inl OrderCountMismatch"
    using main_plan_error [of e a pdf_files OrderCountMismatch "[]" files] by simp
qed

theorem order_count_mismatch_witness:
  "given (arg_custom_order ex_args) \<and>
   parse_custom_order (the (arg_custom_order ex_args)) = Inr [1, 2] \<and>
   list_pdf_files (env_listdir ex_env) (arg_input_folder ex_args) =
     [''doc_2.pdf'', ''doc_10.pdf'', ''doc_1.pdf''] \<and>
   length [''doc_2.pdf'', ''doc_10.pdf'', ''doc_1.pdf''] \<noteq> length [1, 2 :: int] \<and>
   get_sorted_pdfs_by_order [''doc_2.pdf'', ''doc_10.pdf'', ''doc_1.pdf''] [1, 2] = Inl OrderCountMismatch \<and>
   snd (snd (main ex_args ex_env Map.empty)) = Map.empty \<and>
   fst (main ex_args ex_env Map.empty) = Inl OrderCountMismatch"
proof -
  have g: "given (arg_custom_order ex_args)" by (simp add: ex_args_def given_def)
  have p: "parse_custom_order (the (arg_custom_order ex_args)) = Inr [1, 2]" by code_simp
  have l: "list_pdf_files (env_listdir ex_env) (arg_input_folder ex_args) =
     [''doc_2.pdf'', ''doc_10.pdf'', ''doc_1.pdf'']" by code_simp
  have n: "length [''doc_2.pdf'', ''doc_10.pdf'', ''doc_1.pdf''] \<noteq> length [1, 2 :: int]" by simp
  note t = order_count_mismatch [of "[''doc_2.pdf'', ''doc_10.pdf'', ''doc_1.pdf'']" "[1, 2]"
      ex_args ex_env Map.empty]
  from t n have 1: "get_sorted_pdfs_by_order [''doc_2.pdf'', ''doc_10.pdf'', ''doc_1.pdf''] [1, 2] =
      Inl OrderCountMismatch" by blast
  from t g p l n have 2: "snd (snd (main ex_args ex_env Map.empty)) = Map.empty \<and>
      fst (main ex_args ex_env Map.empty) = Inl OrderCountMismatch" by blast
  from g p l n 1 2 show ?thesis by blast
qed

lemma zip_fst_distinct: "distinct xs \<Longrightarrow> length xs = length ys \<Longrightarrow> distinct (map fst (zip xs ys))"
  by simp

text \<open>
  C7. For a listing of \<open>N\<close> files (the names of a directory listing are distinct)
  and an order list of the same length, the explicit strategy returns a plan that is a
  permutation of the files, each paired with its order value, in ascending order of
  these values. When the explicit strategy is requested (\<open>--custom_order\<close> is given
  and not empty, the test of \<open>main\<close>), the result of \<open>main\<close> does not depend on the
  prefix or the pattern: the index strategy is not consulted.
\<close>

theorem explicit_plan_permutation:
  "(distinct pdf_files \<and> length pdf_files = length order \<longrightarrow>
      (\<exists>plan. get_sorted_pdfs_by_order pdf_files order = Inr plan \<and>
         mset plan = mset (zip pdf_files order) \<and> mset (map fst plan) = mset pdf_files \<and>
         sorted (map snd plan))) \<and>
   (given (arg_custom_order a) \<longrightarrow>
      main (a\<lparr>arg_prefix := p, arg_index_pattern := r\<rparr>) e files = main a e files)"
proof (intro conjI impI)
  assume h: "distinct pdf_files \<and> length pdf_files = length order"
  then have "foldl (\<lambda>d (k, v). dict_set d k v) [] (zip pdf_files order) = [] @ zip pdf_files order"
    by (intro build_distinct) simp_all
  then have g: "get_sorted_pdfs_by_order pdf_files order = Inr (sort_key snd (zip pdf_files order))"
    using h by (simp add: get_sorted_pdfs_by_order_def sorted_by_value_def)
  have "mset (map fst (sort_key snd (zip pdf_files order))) = mset (map fst (zip pdf_files order))"
    by (simp only: mset_map mset_sort)
  then have "mset (map fst (sort_key snd (zip pdf_files order))) = mset pdf_files"
    using h by simp
  with g show "\<exists>plan. get_sorted_pdfs_by_order pdf_files order = Inr plan \<and>
       mset plan = mset (zip pdf_files order) \<and> mset (map fst plan) = mset pdf_files \<and>
       sorted (map snd plan)"
    by simp
next
  assume "given (arg_custom_order a)"
  then have "plan_step (a\<lparr>arg_prefix := p, arg_index_pattern := r\<rparr>) = plan_step a"
    by (simp add: plan_step_def fun_eq_iff)
  then show "main (a\<lparr>arg_prefix := p, arg_index_pattern := r\<rparr>) e files = main a e files"
    by (simp add: main_def Let_def cong: if_cong prod.case_cong sum.case_cong)
qed

theorem explicit_plan_permutation_witness:
  "distinct [''file1'', ''file2'', ''file3''] \<and> length [''file1'', ''file2'', ''file3''] = length [3, 1, 2 :: int] \<and>
   get_sorted_pdfs_by_order [''file1'', ''file2'', ''file3''] [3, 1, 2] =
     Inr [(''file2'', 1), (''file3'', 2), (''file1'', 3)] \<and>
   given (arg_custom_order ex_order_args) \<and>
   main (ex_order_args\<lparr>arg_prefix := ''x'', arg_index_pattern := Digit\<rparr>) ex_decline_env Map.empty =
     main ex_order_args ex_decline_env Map.empty \<and>
   fst (main ex_order_args ex_decline_env Map.empty) = Inr () \<and>
   fst (snd (main ex_order_args ex_decline_env Map.empty)) =
     [CHR 0x0A # ''The following PDFs will be merged in this order:'',
      ''doc_2.pdf (Order/Index: 1)'', ''doc_10.pdf (Order/Index: 2)'',
      ''doc_1.pdf (Order/Index: 3)'',
      CHR 0x0A # ''Do you want to proceed with merging these files? (yes/no): '',
      ''Merge operation aborted by the user.''] \<and>
   fst (snd (main (ex_order_args\<lparr>arg_custom_order := None\<rparr>) ex_decline_env Map.empty)) =
     [CHR 0x0A # ''The following PDFs will be merged in this order:'',
      ''doc_1.pdf (Order/Index: 1)'', ''doc_2.pdf (Order/Index: 2)'',
      ''doc_10.pdf (Order/Index: 10)'',
      CHR 0x0A # ''Do you want to proceed with merging these files? (yes/no): '',
      ''Merge operation aborted by the user.'']"
proof -
  have d: "distinct [''file1'', ''file2'', ''file3''] \<and>
      length [''file1'', ''file2'', ''file3''] = length [3, 1, 2 :: int]" by simp
  have g: "given (arg_custom_order ex_order_args)"
    by (simp add: ex_order_args_def ex_args_def given_def)
  have v: "get_sorted_pdfs_by_order [''file1'', ''file2'', ''file3''] [3, 1, 2] =
     Inr [(''file2'', 1), (''file3'', 2), (''file1'', 3)]" by code_simp
  have r: "fst (main ex_order_args ex_decline_env Map.empty) = Inr ()" by code_simp
  have o: "fst (snd (main ex_order_args ex_decline_env Map.empty)) =
     [CHR 0x0A # ''The following PDFs will be merged in this order:'',
      ''doc_2.pdf (Order/Index: 1)'', ''doc_10.pdf (Order/Index: 2)'',
      ''doc_1.pdf (Order/Index: 3)'',
      CHR 0x0A # ''Do you want to proceed with merging these files? (yes/no): '',
      ''Merge operation aborted by the user.'']" by code_simp
  have i: "fst (snd (main (ex_order_args\<lparr>arg_custom_order := None\<rparr>) ex_decline_env Map.empty)) =
     [CHR 0x0A # ''The following PDFs will be merged in this order:'',
      ''doc_1.pdf (Order/Index: 1)'', ''doc_2.pdf (Order/Index: 2)'',
      ''doc_10.pdf (Order/Index: 10)'',
      CHR 0x0A # ''Do you want to proceed with merging these files? (yes/no): '',
      ''Merge operation aborted by the user.'']" by code_simp
  note t = explicit_plan_permutation [where pdf_files = "[''file1'', ''file2'', ''file3'']"
      and order = "[3, 1, 2]" and a = ex_order_args and p = "''x''" and r = Digit
      and e = ex_decline_env and files = Map.empty]
  from t d have "\<exists>plan. get_sorted_pdfs_by_order [''file1'', ''file2'', ''file3''] [3, 1, 2] = Inr plan"
    by blast
  from t g have m: "main (ex_order_args\<lparr>arg_prefix := ''x'', arg_index_pattern := Digit\<rparr>)
      ex_decline_env Map.empty = main ex_order_args ex_decline_env Map.empty" by blast
  from d g v m r o i show ?thesis by blast
qed

text \<open>
  C4. For a listing (the names of a directory listing are distinct) in which every name
  matches the default pattern, that is, the name the pattern is searched in (the name
  after the prefix is stripped, C3) contains a decimal digit, the index strategy with
  the default pattern prints no warning and returns a plan of as many entries as there
  are files, a permutation of the files, in non-decreasing order of the keys, each key
  being the one extracted from its file. The files \<open>doc_2.pdf\<close>, \<open>doc_10.pdf\<close>,
  \<open>doc_1.pdf\<close> with prefix \<open>doc_\<close> give the plan \<open>doc_1.pdf\<close> (1),
  \<open>doc_2.pdf\<close> (2), \<open>doc_10.pdf\<close> (10).
\<close>

theorem index_plan_complete_sorted:
  "(distinct pdf_files \<and>
    (\<forall>f\<in>set pdf_files. \<exists>c\<in>set (if startswith f pre then drop (length pre) f else f). is_digit c)
     \<longrightarrow> (\<exists>plan. get_sorted_pdfs_by_index pdf_files pre default_pattern = (Inr plan, []) \<and>
            length plan = length pdf_files \<and> mset (map fst plan) = mset pdf_files \<and>
            sorted (map snd plan) \<and>
            (\<forall>e\<in>set plan. extract_index_from_filename (fst e) pre default_pattern =
               Inr (Some (snd e))))) \<and>
   get_sorted_pdfs_by_index [''doc_2.pdf'', ''doc_10.pdf'', ''doc_1.pdf''] ''doc_'' default_pattern =
     (Inr [(''doc_1.pdf'', 1), (''doc_2.pdf'', 2), (''doc_10.pdf'', 10)], [])"
proof (intro conjI impI)
  assume h: "distinct pdf_files \<and>
    (\<forall>f\<in>set pdf_files. \<exists>c\<in>set (if startswith f pre then drop (length pre) f else f). is_digit c)"
  then have k: "\<forall>f\<in>set pdf_files. \<exists>k. extract_index_from_filename f pre default_pattern = Inr (Some k)"
    using digit_gives_key by blast
  from index_loop_keyed [of pdf_files "[]" pre default_pattern "[]"] h k
  obtain ks where ks: "length ks = length pdf_files"
    and l: "index_loop pdf_files pre default_pattern [] [] = (Inr (zip pdf_files ks), [])"
    by auto
  define plan where "plan = sorted_by_value (zip pdf_files ks)"
  have g: "get_sorted_pdfs_by_index pdf_files pre default_pattern = (Inr plan, [])"
    using l by (simp add: get_sorted_pdfs_by_index_def plan_def)
  have len: "length plan = length pdf_files"
    using ks by (simp add: plan_def sorted_by_value_def)
  have "mset (map fst plan) = mset (map fst (zip pdf_files ks))"
    unfolding plan_def sorted_by_value_def by (simp only: mset_map mset_sort)
  then have per: "mset (map fst plan) = mset pdf_files" using ks by simp
  have srt: "sorted (map snd plan)" by (simp add: plan_def sorted_by_value_def)
  have "\<forall>e\<in>set plan. e \<in> set [] \<or> (fst e \<in> set pdf_files \<and>
      extract_index_from_filename (fst e) pre default_pattern = Inr (Some (snd e)))"
    using index_loop_result [OF l] by (simp add: plan_def sorted_by_value_def)
  then have key: "\<forall>e\<in>set plan. extract_index_from_filename (fst e) pre default_pattern =
      Inr (Some (snd e))" by simp
  from g len per srt key
  show "\<exists>plan. get_sorted_pdfs_by_index pdf_files pre default_pattern = (Inr plan, []) \<and>
      length plan = length pdf_files \<and> mset (map fst plan) = mset pdf_files \<and>
      sorted (map snd plan) \<and>
      (\<forall>e\<in>set plan. extract_index_from_filename (fst e) pre default_pattern = Inr (Some (snd e)))"
    by blast
next
  show "get_sorted_pdfs_by_index [''doc_2.pdf'', ''doc_10.pdf'', ''doc_1.pdf''] ''doc_'' default_pattern =
     (Inr [(''doc_1.pdf'', 1), (''doc_2.pdf'', 2), (''doc_10.pdf'', 10)], [])"
    by code_simp
qed

theorem index_plan_complete_sorted_witness:
  "distinct [''b7.pdf'', ''a12.pdf''] \<and>
   (\<exists>c\<in>set (if startswith ''b7.pdf'' ''a'' then drop (length ''a'') ''b7.pdf'' else ''b7.pdf'').
      is_digit c) \<and>
   (\<exists>c\<in>set (if startswith ''a12.pdf'' ''a'' then drop (length ''a'') ''a12.pdf'' else ''a12.pdf'').
      is_digit c) \<and>
   get_sorted_pdfs_by_index [''b7.pdf'', ''a12.pdf''] ''a'' default_pattern =
     (Inr [(''b7.pdf'', 7), (''a12.pdf'', 12)], []) \<and>
   (\<exists>plan. get_sorted_pdfs_by_index [''b7.pdf'', ''a12.pdf''] ''a'' default_pattern = (Inr plan, []) \<and>
      length plan = 2)"
proof -
  have d: "distinct [''b7.pdf'', ''a12.pdf'']" by simp
  have c: "\<forall>f\<in>set [''b7.pdf'', ''a12.pdf''].
      \<exists>c\<in>set (if startswith f ''a'' then drop (length ''a'') f else f). is_digit c"
    by (simp add: startswith_def is_digit_def)
  have v: "get_sorted_pdfs_by_index [''b7.pdf'', ''a12.pdf''] ''a'' default_pattern =
     (Inr [(''b7.pdf'', 7), (''a12.pdf'', 12)], [])" by code_simp
  from index_plan_complete_sorted [of "[''b7.pdf'', ''a12.pdf'']" "''a''"] d c
  have "\<exists>plan. get_sorted_pdfs_by_index [''b7.pdf'', ''a12.pdf''] ''a'' default_pattern = (Inr plan, []) \<and>
      length plan = 2" by auto
  moreover have "(\<exists>c\<in>set (if startswith ''b7.pdf'' ''a'' then drop (length ''a'') ''b7.pdf''
        else ''b7.pdf''). is_digit c) \<and>
      (\<exists>c\<in>set (if startswith ''a12.pdf'' ''a'' then drop (length ''a'') ''a12.pdf''
        else ''a12.pdf''). is_digit c)"
    using c by simp
  ultimately show ?thesis using d v by blast
qed

text \<open>
  C8. In the plan of either strategy, two entries with equal keys stand in the order of
  their files in the listing (stable sort): the entry at the earlier plan position is the
  file listed first.
\<close>

theorem plan_stable:
  assumes "get_sorted_pdfs_by_index pdf_files pre pat = (Inr plan, out) \<or>
           get_sorted_pdfs_by_order pdf_files order = Inr plan"
    and "i < j" and "j < length plan" and "snd (plan ! i) = snd (plan ! j)"
  shows "index_of (fst (plan ! i)) pdf_files < index_of (fst (plan ! j)) pdf_files"
proof -
  have "\<exists>d. plan = sorted_by_value d \<and>
      sorted_wrt (\<lambda>a b. index_of a pdf_files < index_of b pdf_files) (map fst d)"
    using assms(1)
  proof
    assume g: "get_sorted_pdfs_by_index pdf_files pre pat = (Inr plan, out)"
    then obtain d where l: "index_loop pdf_files pre pat [] [] = (Inr d, out)"
      and p: "plan = sorted_by_value d"
      by (auto simp: get_sorted_pdfs_by_index_def split: prod.splits sum.splits)
    from index_loop_order [OF l, of "[]"] have
      "sorted_wrt (\<lambda>a b. index_of a pdf_files < index_of b pdf_files) (map fst d)" by simp
    with p show ?thesis by blast
  next
    assume g: "get_sorted_pdfs_by_order pdf_files order = Inr plan"
    then have len: "length pdf_files = length order"
      by (simp add: get_sorted_pdfs_by_order_def split: if_splits)
    define d where "d = foldl (\<lambda>d (k, v). dict_set d k v) [] (zip pdf_files order)"
    have p: "plan = sorted_by_value d"
      using g len by (simp add: get_sorted_pdfs_by_order_def d_def)
    from build_order [of "[]" "[]" "zip pdf_files order"] len have
      "sorted_wrt (\<lambda>a b. index_of a pdf_files < index_of b pdf_files) (map fst d)"
      by (simp add: d_def)
    with p show ?thesis by blast
  qed
  then obtain d where p: "plan = sorted_by_value d"
    and s: "sorted_wrt (\<lambda>a b. index_of a pdf_files < index_of b pdf_files) (map fst d)"
    by blast
  from sorted_by_value_stable [OF s] assms(2-4) p show ?thesis by simp
qed

theorem plan_stable_witness:
  "get_sorted_pdfs_by_index [''b5.pdf'', ''c1.pdf'', ''a5.pdf''] [] default_pattern =
     (Inr [(''c1.pdf'', 1), (''b5.pdf'', 5), (''a5.pdf'', 5)], []) \<and>
   get_sorted_pdfs_by_order [''b.pdf'', ''c.pdf'', ''a.pdf''] [5, 1, 5] =
     Inr [(''c.pdf'', 1), (''b.pdf'', 5), (''a.pdf'', 5)] \<and>
   index_of ''b5.pdf'' [''b5.pdf'', ''c1.pdf'', ''a5.pdf''] <
     index_of ''a5.pdf'' [''b5.pdf'', ''c1.pdf'', ''a5.pdf''] \<and>
   index_of ''b.pdf'' [''b.pdf'', ''c.pdf'', ''a.pdf''] <
     index_of ''a.pdf'' [''b.pdf'', ''c.pdf'', ''a.pdf'']"
proof -
  have v1: "get_sorted_pdfs_by_index [''b5.pdf'', ''c1.pdf'', ''a5.pdf''] [] default_pattern =
     (Inr [(''c1.pdf'', 1), (''b5.pdf'', 5), (''a5.pdf'', 5)], [])" by code_simp
  have v2: "get_sorted_pdfs_by_order [''b.pdf'', ''c.pdf'', ''a.pdf''] [5, 1, 5] =
     Inr [(''c.pdf'', 1), (''b.pdf'', 5), (''a.pdf'', 5)]" by code_simp
  have 1: "index_of (fst ([(''c1.pdf'', 1 :: int), (''b5.pdf'', 5), (''a5.pdf'', 5)] ! 1))
        [''b5.pdf'', ''c1.pdf'', ''a5.pdf''] <
      index_of (fst ([(''c1.pdf'', 1 :: int), (''b5.pdf'', 5), (''a5.pdf'', 5)] ! 2))
        [''b5.pdf'', ''c1.pdf'', ''a5.pdf'']"
    by (rule plan_stable [where pre = "[]" and pat = default_pattern and out = "[]"
          and order = "[]"]) (simp_all add: v1)
  have 2: "index_of (fst ([(''c.pdf'', 1 :: int), (''b.pdf'', 5), (''a.pdf'', 5)] ! 1))
        [''b.pdf'', ''c.pdf'', ''a.pdf''] <
      index_of (fst ([(''c.pdf'', 1 :: int), (''b.pdf'', 5), (''a.pdf'', 5)] ! 2))
        [''b.pdf'', ''c.pdf'', ''a.pdf'']"
    by (rule plan_stable [where pre = "[]" and pat = default_pattern and out = "[]"
          and order = "[5, 1, 5]"]) (simp_all add: v2)
  from v1 v2 1 2 show ?thesis by simp
qed

text \<open>
  C5. When no extraction raises, the index strategy returns a plan in which every entry is
  a listed file with the key extracted from its name, and every file without a key is
  left out of the plan and has its warning printed. When no PDF file of the listing has a
  key (and no explicit order is given), \<open>main\<close> prints the warnings and the message
  that no valid PDF was found, returns, and leaves the file system as it was.
\<close>

theorem index_plan_excludes_unkeyed:
  "((\<forall>f\<in>set pdf_files. \<exists>r. extract_index_from_filename f pre pat = Inr r) \<longrightarrow>
      (\<exists>plan out. get_sorted_pdfs_by_index pdf_files pre pat = (Inr plan, out) \<and>
         (\<forall>f\<in>set pdf_files. extract_index_from_filename f pre pat = Inr None \<longrightarrow>
            f \<notin> fst ` set plan \<and> no_index_warning f \<in> set out) \<and>
         (\<forall>e\<in>set plan. fst e \<in> set pdf_files \<and>
            extract_index_from_filename (fst e) pre pat = Inr (Some (snd e))))) \<and>
   (\<not> given (arg_custom_order a) \<and>
    list_pdf_files (env_listdir e) (arg_input_folder a) = listed \<and> listed \<noteq> [] \<and>
    (\<forall>f\<in>set listed.
       extract_index_from_filename f (arg_prefix a) (arg_index_pattern a) = Inr None) \<longrightarrow>
      main a e files = (Inr (), map no_index_warning listed @ [no_valid_message], files))"
proof (intro conjI impI)
  assume "\<forall>f\<in>set pdf_files. \<exists>r. extract_index_from_filename f pre pat = Inr r"
  from index_loop_total [OF this, of "[]" "[]"] obtain d out where
    l: "index_loop pdf_files pre pat [] [] = (Inr d, out)" by blast
  have g: "get_sorted_pdfs_by_index pdf_files pre pat = (Inr (sorted_by_value d), out)"
    using l by (simp add: get_sorted_pdfs_by_index_def)
  from index_loop_result [OF l] have
    o: "out = map no_index_warning
         (filter (\<lambda>f. extract_index_from_filename f pre pat = Inr None) pdf_files)"
    and k: "fst ` set d = {f \<in> set pdf_files. \<exists>k. extract_index_from_filename f pre pat = Inr (Some k)}"
    and v: "\<forall>e\<in>set d. fst e \<in> set pdf_files \<and>
         extract_index_from_filename (fst e) pre pat = Inr (Some (snd e))"
    by auto
  have s: "set (sorted_by_value d) = set d" by (simp add: sorted_by_value_def)
  have "\<forall>f\<in>set pdf_files. extract_index_from_filename f pre pat = Inr None \<longrightarrow>
      f \<notin> fst ` set (sorted_by_value d) \<and> no_index_warning f \<in> set out"
    using k o unfolding s by auto
  with g v s show "\<exists>plan out. get_sorted_pdfs_by_index pdf_files pre pat = (Inr plan, out) \<and>
      (\<forall>f\<in>set pdf_files. extract_index_from_filename f pre pat = Inr None \<longrightarrow>
         f \<notin> fst ` set plan \<and> no_index_warning f \<in> set out) \<and>
      (\<forall>e\<in>set plan. fst e \<in> set pdf_files \<and>
         extract_index_from_filename (fst e) pre pat = Inr (Some (snd e)))"
    by auto
next
  assume h: "\<not> given (arg_custom_order a) \<and>
    list_pdf_files (env_listdir e) (arg_input_folder a) = listed \<and> listed \<noteq> [] \<and>
    (\<forall>f\<in>set listed.
       extract_index_from_filename f (arg_prefix a) (arg_index_pattern a) = Inr None)"
  then have t: "\<forall>f\<in>set listed. \<exists>r.
      extract_index_from_filename f (arg_prefix a) (arg_index_pattern a) = Inr r" by simp
  from index_loop_total [OF t, of "[]" "[]"] obtain d out where
    l: "index_loop listed (arg_prefix a) (arg_index_pattern a) [] [] = (Inr d, out)" by blast
  from index_loop_result [OF l] h have
    o: "out = map no_index_warning
         (filter (\<lambda>f. extract_index_from_filename f (arg_prefix a) (arg_index_pattern a) = Inr None)
            listed)"
    and k: "fst ` set d = {}"
    by auto
  have f: "filter (\<lambda>f. extract_index_from_filename f (arg_prefix a) (arg_index_pattern a) = Inr None)
      listed = listed" using h by (simp add: filter_id_conv)
  have "d = []" using k by simp
  then have "plan_step a listed = (Inr [], map no_index_warning listed)"
    using h l o f by (simp add: plan_step_def get_sorted_pdfs_by_index_def sorted_by_value_def)
  with h show "main a e files = (Inr (), map no_index_warning listed @ [no_valid_message], files)"
    using main_no_plan [of e a listed "map no_index_warning listed" files] by simp
qed

theorem index_plan_excludes_unkeyed_witness:
  "extract_index_from_filename ''doc_3.pdf'' ''doc_'' default_pattern = Inr (Some 3) \<and>
   extract_index_from_filename ''x.pdf'' ''doc_'' default_pattern = Inr None \<and>
   extract_index_from_filename ''notes.pdf'' ''doc_'' default_pattern = Inr None \<and>
   get_sorted_pdfs_by_index [''x.pdf'', ''doc_3.pdf''] ''doc_'' default_pattern =
     (Inr [(''doc_3.pdf'', 3)], [no_index_warning ''x.pdf'']) \<and>
   (\<exists>plan out. get_sorted_pdfs_by_index [''x.pdf'', ''doc_3.pdf''] ''doc_'' default_pattern =
      (Inr plan, out) \<and> ''x.pdf'' \<notin> fst ` set plan \<and> no_index_warning ''x.pdf'' \<in> set out) \<and>
   \<not> given (arg_custom_order (ex_args\<lparr>arg_custom_order := None\<rparr>)) \<and>
   list_pdf_files (env_listdir (ex_env\<lparr>env_listdir := \<lambda>_. [''notes.pdf'', ''readme.txt'']\<rparr>))
     (arg_input_folder (ex_args\<lparr>arg_custom_order := None\<rparr>)) = [''notes.pdf''] \<and>
   main (ex_args\<lparr>arg_custom_order := None\<rparr>)
        (ex_env\<lparr>env_listdir := \<lambda>_. [''notes.pdf'', ''readme.txt'']\<rparr>) Map.empty =
     (Inr (), [no_index_warning ''notes.pdf'', no_valid_message], Map.empty)"
proof -
  have e1: "extract_index_from_filename ''x.pdf'' ''doc_'' default_pattern = Inr None" by code_simp
  have e2: "extract_index_from_filename ''doc_3.pdf'' ''doc_'' default_pattern = Inr (Some 3)"
    by code_simp
  have e3: "extract_index_from_filename ''notes.pdf'' ''doc_'' default_pattern = Inr None"
    by code_simp
  have h1: "\<forall>f\<in>set [''x.pdf'', ''doc_3.pdf'']. \<exists>r.
      extract_index_from_filename f ''doc_'' default_pattern = Inr r"
    by (simp add: e1 e2)
  have v: "get_sorted_pdfs_by_index [''x.pdf'', ''doc_3.pdf''] ''doc_'' default_pattern =
     (Inr [(''doc_3.pdf'', 3)], [no_index_warning ''x.pdf''])" by code_simp
  have g: "\<not> given (arg_custom_order (ex_args\<lparr>arg_custom_order := None\<rparr>))"
    by (simp add: given_def)
  have l: "list_pdf_files (env_listdir (ex_env\<lparr>env_listdir := \<lambda>_. [''notes.pdf'', ''readme.txt'']\<rparr>))
     (arg_input_folder (ex_args\<lparr>arg_custom_order := None\<rparr>)) = [''notes.pdf'']"
    by (simp add: list_pdf_files_def endswith_def)
  have h2: "\<forall>f\<in>set [''notes.pdf'']. extract_index_from_filename f
      (arg_prefix (ex_args\<lparr>arg_custom_order := None\<rparr>))
      (arg_index_pattern (ex_args\<lparr>arg_custom_order := None\<rparr>)) = Inr None"
    by (simp add: ex_args_def e3)
  note t = index_plan_excludes_unkeyed [where pdf_files = "[''x.pdf'', ''doc_3.pdf'']"
      and pre = "''doc_''" and pat = default_pattern
      and a = "ex_args\<lparr>arg_custom_order := None\<rparr>"
      and e = "ex_env\<lparr>env_listdir := \<lambda>_. [''notes.pdf'', ''readme.txt'']\<rparr>"
      and listed = "[''notes.pdf'']" and files = Map.empty]
  from t h1 e1 have 1: "\<exists>plan out.
      get_sorted_pdfs_by_index [''x.pdf'', ''doc_3.pdf''] ''doc_'' default_pattern = (Inr plan, out) \<and>
      ''x.pdf'' \<notin> fst ` set plan \<and> no_index_warning ''x.pdf'' \<in> set out"
    by fastforce
  from t g l h2 have 2: "main (ex_args\<lparr>arg_custom_order := None\<rparr>)
        (ex_env\<lparr>env_listdir := \<lambda>_. [''notes.pdf'', ''readme.txt'']\<rparr>) Map.empty =
     (Inr (), [no_index_warning ''notes.pdf'', no_valid_message], Map.empty)"
    by simp
  from e1 e2 e3 v 1 g l 2 show ?thesis by blast
qed

section \<open>Properties of the assembly\<close>

lemma split_on_absent: "c \<notin> set s \<Longrightarrow> split_on c s = [s]"
  by (induction s) auto

lemma rfind_suffix:
  assumes "c \<notin> set t"
  shows "rfind c (b @ c # t) = Some (length b)"
proof -
  have "takeWhile (\<lambda>x. x \<noteq> c) (rev t @ c # rev b) = rev t @ takeWhile (\<lambda>x. x \<noteq> c) (c # rev b)"
    using assms by (intro takeWhile_append2) auto
  then have "takeWhile (\<lambda>x. x \<noteq> c) (rev (b @ c # t)) = rev t" by simp
  then show ?thesis unfolding rfind_def by simp
qed

lemma path_name_last: "p_parts p \<noteq> [] \<Longrightarrow> path_name p = last (p_parts p)"
  by (cases "p_parts p") (simp_all add: path_name_def)

text \<open>Line 64 on its own: the title it computes for the entry at position \<open>i\<close>.\<close>

lemma bookmark_title_rule:
  "bookmark_title_of titles i p =
     (case titles of
        Some ts \<Rightarrow> if i < length ts then ts ! i else path_stem p
      | None \<Rightarrow> path_stem p)"
  by (auto simp: bookmark_title_of_def split: option.splits)

lemma stem_pdf:
  assumes "base \<noteq> []" and "CHR ''/'' \<notin> set base"
  shows "path_stem (path_join (Path folder) (base @ ''.pdf'')) = base"
proof -
  let ?n = "base @ ''.pdf''"
  have ns: "\<not> startswith ?n ''/''"
    using assms by (cases base) (auto simp: startswith_def)
  have "CHR ''/'' \<notin> set ?n" using assms(2) by simp
  then have sp: "split_on CHR ''/'' ?n = [?n]" by (rule split_on_absent)
  have "?n \<noteq> ''.''" using assms(1) by (cases base) auto
  then have parts: "p_parts (Path ?n) = [?n]" using sp by (simp add: Path_def)
  have "p_parts (path_join (Path folder) ?n) = p_parts (Path folder) @ [?n]"
    using ns parts by (simp add: path_join_def)
  then have name: "path_name (path_join (Path folder) ?n) = ?n"
    using path_name_last [of "path_join (Path folder) ?n"] by simp
  have r: "rfind CHR ''.'' ?n = Some (length base)"
    using rfind_suffix [of "CHR ''.''" "''pdf''" base] by simp
  show ?thesis
    unfolding path_stem_def name Let_def r using assms(1) by simp
qed

text \<open>
  Line 69 raises on every merger: \<open>IndexError\<close> when no page has been merged, and
  \<open>AttributeError\<close> otherwise.
\<close>

lemma last_num_pages_raises:
  "last_num_pages mg = Inl (if mg_pages mg = [] then IndexError else AttributeError)"
  by (cases "mg_pages mg") (simp_all add: last_num_pages_def pages_last_def numPages_def)

text \<open>One pass through the loop body: it never reaches the next entry.\<close>

lemma merge_loop_Cons:
  "merge_loop pp folder titles idx ((f, k) # rest) mg cur out =
     (case pp (path_str (path_join (Path folder) f)) of
        None \<Rightarrow> (Inl (AppendFailure (path_str (path_join (Path folder) f))), out)
      | Some n \<Rightarrow>
          (Inl (if mg_pages mg = [] \<and> n = 0 then IndexError else AttributeError),
           out @ [adding_message f (bookmark_title_of titles idx (path_join (Path folder) f))]))"
  by (simp add: Let_def merger_append_def add_outline_item_def last_num_pages_raises
      split: option.splits)

lemma merge_pdfs_Cons:
  "merge_pdfs pp w files folder dest ((f, k) # rest) titles =
     (case pp (path_str (path_join (Path folder) f)) of
        None \<Rightarrow> (Inl (AppendFailure (path_str (path_join (Path folder) f))), [], files)
      | Some n \<Rightarrow>
          (Inl (if n = 0 then IndexError else AttributeError),
           [adding_message f (bookmark_title_of titles 0 (path_join (Path folder) f))], files))"
  by (simp add: merge_pdfs_def merge_loop_Cons PdfMerger_def del: merge_loop.simps
      split: option.splits)

lemma merge_pdfs_Nil:
  "merge_pdfs pp w files folder dest [] titles =
     (if w dest then (Inr (), [saved_message dest], files(dest \<mapsto> \<lparr>doc_pages = 0, doc_outline = []\<rparr>))
      else (Inl (OSError dest), [], files))"
  by (simp add: merge_pdfs_def PdfMerger_def merger_write_def)

lemma ex_paths:
  "path_str (path_join (Path ''in'') ''doc_1.pdf'') = ''in/doc_1.pdf''"
  "path_str (path_join (Path ''in'') ''doc_2.pdf'') = ''in/doc_2.pdf''"
  "path_str (path_join (Path ''in'') ''missing.pdf'') = ''in/missing.pdf''"
  "path_str (path_join (Path ''in'') ''a.pdf'') = ''in/a.pdf''"
  "path_stem (path_join (Path ''in'') ''doc_1.pdf'') = ''doc_1''"
  "path_stem (path_join (Path ''in'') ''doc_2.pdf'') = ''doc_2''"
  "path_stem (path_join (Path ''in'') ''a.pdf'') = ''a''"
  by code_simp+

lemma ex_pages:
  "env_pdf_pages ex_env ''in/doc_1.pdf'' = Some 3"
  "env_pdf_pages ex_env ''in/doc_2.pdf'' = Some 5"
  "env_pdf_pages ex_env ''in/missing.pdf'' = None"
  by code_simp+

text \<open>
  C1. The running page counter is to advance, after each append, by the number of pages
  the appended file contributed, so that the bookmark of the \<open>i\<close>-th plan entry is at
  the sum of the page counts of the entries before it. The program does not do this.
  Line 69 asks the last page object of the merger for \<open>numPages\<close>, which it does not
  have, so the first pass through the loop ends with \<open>AttributeError\<close>: the counter is
  never advanced, only the first bookmark (at page 0) is added, and nothing is written.
  For the plan \<open>doc_1.pdf\<close>, \<open>doc_2.pdf\<close>, \<open>doc_10.pdf\<close> with 3, 5 and 2 pages the
  bookmarks at pages 3 and 8 are never added; the same run through \<open>main\<close>, with the
  index strategy and without the prompt, ends in the same way. When the first file has
  no page, line 69 raises \<open>IndexError\<close> instead.
\<close>

theorem page_count_lookup_raises:
  "merge_pdfs (env_pdf_pages ex_env) (env_writable ex_env) Map.empty ''in'' ''out.pdf''
     [(''doc_1.pdf'', 1), (''doc_2.pdf'', 2), (''doc_10.pdf'', 10)] None =
     (Inl AttributeError, [adding_message ''doc_1.pdf'' ''doc_1''], Map.empty) \<and>
   main (ex_args\<lparr>arg_custom_order := None\<rparr>) ex_env Map.empty =
     (Inl AttributeError, [adding_message ''doc_1.pdf'' ''doc_1''], Map.empty) \<and>
   merge_pdfs (\<lambda>p. Some 0) (\<lambda>p. True) Map.empty ''in'' ''out.pdf'' [(''a.pdf'', 1)] None =
     (Inl IndexError, [adding_message ''a.pdf'' ''a''], Map.empty)"
proof (intro conjI)
  show m: "merge_pdfs (env_pdf_pages ex_env) (env_writable ex_env) Map.empty ''in'' ''out.pdf''
     [(''doc_1.pdf'', 1), (''doc_2.pdf'', 2), (''doc_10.pdf'', 10)] None =
     (Inl AttributeError, [adding_message ''doc_1.pdf'' ''doc_1''], Map.empty)"
    by (simp add: merge_pdfs_Cons ex_paths ex_pages bookmark_title_of_def)
  have l: "list_pdf_files (env_listdir ex_env) ''in'' = [''doc_2.pdf'', ''doc_10.pdf'', ''doc_1.pdf'']"
    by code_simp
  have p: "get_sorted_pdfs_by_index [''doc_2.pdf'', ''doc_10.pdf'', ''doc_1.pdf''] ''doc_'' default_pattern =
     (Inr [(''doc_1.pdf'', 1), (''doc_2.pdf'', 2), (''doc_10.pdf'', 10)], [])"
    by code_simp
  show "main (ex_args\<lparr>arg_custom_order := None\<rparr>) ex_env Map.empty =
     (Inl AttributeError, [adding_message ''doc_1.pdf'' ''doc_1''], Map.empty)"
    by (simp add: main_def ex_args_def l p plan_step_def given_def m)
  show "merge_pdfs (\<lambda>p. Some 0) (\<lambda>p. True) Map.empty ''in'' ''out.pdf'' [(''a.pdf'', 1)] None =
     (Inl IndexError, [adding_message ''a.pdf'' ''a''], Map.empty)"
    by (simp add: merge_pdfs_Cons ex_paths bookmark_title_of_def)
qed

text \<open>
  C2. If the library cannot read the file of some plan entry, \<open>merge_pdfs\<close> ends with an
  exception and the file system is as before: no output file is created. When the
  unreadable file is the first entry, the exception is the append failure of that file
  and nothing has been printed. Every exception that leaves \<open>merge_pdfs\<close> leaves the
  file system as it was, because the output path is opened only after the loop has ended
  normally; and when \<open>merge_pdfs\<close> returns normally, the loop has ended normally on
  every entry of the plan, which with line 69 as it is (C1) happens for the empty plan
  only.
\<close>

theorem append_failure_no_output:
  "((\<exists>en\<in>set plan. pp (path_str (path_join (Path folder) (fst en))) = None) \<longrightarrow>
      (\<exists>e out. merge_pdfs pp w files folder dest plan titles = (Inl e, out, files))) \<and>
   (\<forall>f k rest. plan = (f, k) # rest \<and> pp (path_str (path_join (Path folder) f)) = None \<longrightarrow>
      merge_pdfs pp w files folder dest plan titles =
        (Inl (AppendFailure (path_str (path_join (Path folder) f))), [], files)) \<and>
   (\<forall>e. fst (merge_pdfs pp w files folder dest plan titles) = Inl e \<longrightarrow>
      snd (snd (merge_pdfs pp w files folder dest plan titles)) = files) \<and>
   (fst (merge_pdfs pp w files folder dest plan titles) = Inr () \<longrightarrow>
      plan = [] \<and> w dest \<and>
      snd (snd (merge_pdfs pp w files folder dest plan titles)) =
        files(dest \<mapsto> \<lparr>doc_pages = 0, doc_outline = []\<rparr>))"
proof (cases plan)
  case Nil
  then show ?thesis by (simp add: merge_pdfs_Nil)
next
  case (Cons en rest)
  obtain f k where en: "en = (f, k)" by (cases en)
  show ?thesis unfolding Cons en
    by (cases "pp (path_str (path_join (Path folder) f))") (simp_all add: merge_pdfs_Cons)
qed

theorem append_failure_no_output_witness:
  "(\<exists>en\<in>set [(''doc_2.pdf'', 2 :: int), (''missing.pdf'', 3)].
      env_pdf_pages ex_env (path_str (path_join (Path ''in'') (fst en))) = None) \<and>
   (\<exists>e out. merge_pdfs (env_pdf_pages ex_env) (env_writable ex_env) Map.empty ''in'' ''out.pdf''
      [(''doc_2.pdf'', 2), (''missing.pdf'', 3)] None = (Inl e, out, Map.empty)) \<and>
   env_pdf_pages ex_env (path_str (path_join (Path ''in'') ''missing.pdf'')) = None \<and>
   merge_pdfs (env_pdf_pages ex_env) (env_writable ex_env) Map.empty ''in'' ''out.pdf''
      [(''missing.pdf'', 1), (''doc_1.pdf'', 2)] None =
      (Inl (AppendFailure ''in/missing.pdf''), [], Map.empty) \<and>
   fst (merge_pdfs (env_pdf_pages ex_env) (env_writable ex_env) Map.empty ''in'' ''out.pdf'' [] None) =
      Inr () \<and>
   env_writable ex_env ''out.pdf'' \<and>
   snd (snd (merge_pdfs (env_pdf_pages ex_env) (env_writable ex_env) Map.empty ''in'' ''out.pdf''
      [] None)) = [''out.pdf'' \<mapsto> \<lparr>doc_pages = 0, doc_outline = []\<rparr>]"
proof -
  have m: "env_pdf_pages ex_env (path_str (path_join (Path ''in'') ''missing.pdf'')) = None"
    by code_simp
  then have h: "\<exists>en\<in>set [(''doc_2.pdf'', 2 :: int), (''missing.pdf'', 3)].
      env_pdf_pages ex_env (path_str (path_join (Path ''in'') (fst en))) = None" by simp
  note t1 = append_failure_no_output [where pp = "env_pdf_pages ex_env" and w = "env_writable ex_env"
      and folder = "''in''" and plan = "[(''doc_2.pdf'', 2), (''missing.pdf'', 3)]"
      and files = Map.empty and dest = "''out.pdf''" and titles = None]
  from t1 h have 1: "\<exists>e out. merge_pdfs (env_pdf_pages ex_env) (env_writable ex_env) Map.empty ''in''
      ''out.pdf'' [(''doc_2.pdf'', 2), (''missing.pdf'', 3)] None = (Inl e, out, Map.empty)"
    by blast
  note t2 = append_failure_no_output [where pp = "env_pdf_pages ex_env" and w = "env_writable ex_env"
      and folder = "''in''" and plan = "[(''missing.pdf'', 1), (''doc_1.pdf'', 2)]"
      and files = Map.empty and dest = "''out.pdf''" and titles = None]
  from t2 m have 2: "merge_pdfs (env_pdf_pages ex_env) (env_writable ex_env) Map.empty ''in'' ''out.pdf''
      [(''missing.pdf'', 1), (''doc_1.pdf'', 2)] None =
      (Inl (AppendFailure ''in/missing.pdf''), [], Map.empty)"
    by (simp add: ex_paths)
  have w: "env_writable ex_env ''out.pdf''" by (simp add: ex_env_def)
  then have r: "fst (merge_pdfs (env_pdf_pages ex_env) (env_writable ex_env) Map.empty ''in''
      ''out.pdf'' [] None) = Inr ()"
    by (simp add: merge_pdfs_def PdfMerger_def)
  note t3 = append_failure_no_output [where pp = "env_pdf_pages ex_env" and w = "env_writable ex_env"
      and folder = "''in''" and plan = "[]"
      and files = Map.empty and dest = "''out.pdf''" and titles = None]
  from t3 r have 3: "snd (snd (merge_pdfs (env_pdf_pages ex_env) (env_writable ex_env) Map.empty ''in''
      ''out.pdf'' [] None)) = [''out.pdf'' \<mapsto> \<lparr>doc_pages = 0, doc_outline = []\<rparr>]"
    by blast
  from h 1 m 2 r w 3 show ?thesis by blast
qed

text \<open>
  C9. Every plan entry is to get a bookmark whose title is the custom title at the
  entry's position when a title list is given and the position is within it, and
  otherwise the file's name without its extension. Line 64 computes this title
  (\<open>bookmark_title_rule\<close>, \<open>stem_pdf\<close>), and the first entry's bookmark gets it; but
  the loop ends at line 69 in its first pass (C1), so the entries after the first never
  get a bookmark, and no output with bookmarks is written. For the plan
  \<open>doc_1.pdf\<close>, \<open>doc_2.pdf\<close> with the titles \<open>Intro\<close>, \<open>Body\<close>, only the bookmark
  \<open>Intro\<close> is added before the exception, and without titles only \<open>doc_1\<close>.
\<close>

theorem later_bookmarks_never_added:
  "merge_pdfs (env_pdf_pages ex_env) (env_writable ex_env) Map.empty ''in'' ''out.pdf''
     [(''doc_1.pdf'', 1), (''doc_2.pdf'', 2)] (Some [''Intro'', ''Body'']) =
     (Inl AttributeError, [adding_message ''doc_1.pdf'' ''Intro''], Map.empty) \<and>
   merge_pdfs (env_pdf_pages ex_env) (env_writable ex_env) Map.empty ''in'' ''out.pdf''
     [(''doc_1.pdf'', 1), (''doc_2.pdf'', 2)] None =
     (Inl AttributeError, [adding_message ''doc_1.pdf'' ''doc_1''], Map.empty)"
  by (simp add: merge_pdfs_Cons ex_paths ex_pages bookmark_title_of_def)

end
